theory Spec2Isabelle
  imports Complex_Main "HOL-Library.Word"
begin

unbundle bit_operations_syntax

section \<open>JavaScript numbers\<close>

text \<open>
  A JavaScript \<open>number\<close> is an IEEE-754 double: a finite value, one of the two
  infinities, or NaN. Finite values are carried as reals; the two zeros are not told
  apart (the source only ever compares with \<open>=== 0\<close>, which does not tell them apart
  either). Addition, multiplication and comparison follow the IEEE rules for the special
  values. On finite operands \<open>jadd\<close> and \<open>jmul\<close> return the exact sum and product,
  where the double operation returns the double nearest to it, or an infinity when that
  is out of range: the two agree when the exact result is a double, as it is for sums
  and products of small integers and of the dyadic fractions used as examples below,
  and can differ otherwise. The statements about the sampler and the executor are
  therefore made where they do not depend on how a finite result is rounded.
\<close>

datatype jsnum = Fin real | NaN | PosInf | NegInf

definition jadd :: "jsnum \<Rightarrow> jsnum \<Rightarrow> jsnum" where
  "jadd a b = (case (a, b) of
      (Fin x, Fin y) \<Rightarrow> Fin (x + y)
    | (NaN, _) \<Rightarrow> NaN
    | (_, NaN) \<Rightarrow> NaN
    | (PosInf, NegInf) \<Rightarrow> NaN
    | (NegInf, PosInf) \<Rightarrow> NaN
    | (PosInf, _) \<Rightarrow> PosInf
    | (_, PosInf) \<Rightarrow> PosInf
    | (NegInf, _) \<Rightarrow> NegInf
    | (_, NegInf) \<Rightarrow> NegInf)"

definition jneg :: "jsnum \<Rightarrow> jsnum" where
  "jneg a = (case a of Fin x \<Rightarrow> Fin (- x) | NaN \<Rightarrow> NaN | PosInf \<Rightarrow> NegInf | NegInf \<Rightarrow> PosInf)"

definition jmul :: "jsnum \<Rightarrow> jsnum \<Rightarrow> jsnum" where
  "jmul a b = (case (a, b) of
      (Fin x, Fin y) \<Rightarrow> Fin (x * y)
    | (NaN, _) \<Rightarrow> NaN
    | (_, NaN) \<Rightarrow> NaN
    | (Fin x, i) \<Rightarrow> (if x = 0 then NaN else if 0 < x then i else jneg i)
    | (i, Fin y) \<Rightarrow> (if y = 0 then NaN else if 0 < y then i else jneg i)
    | (i, i') \<Rightarrow> (if i = i' then PosInf else NegInf))"

definition jle :: "jsnum \<Rightarrow> jsnum \<Rightarrow> bool" where
  "jle a b = (case (a, b) of
      (Fin x, Fin y) \<Rightarrow> x \<le> y
    | (NaN, _) \<Rightarrow> False
    | (_, NaN) \<Rightarrow> False
    | (NegInf, _) \<Rightarrow> True
    | (_, PosInf) \<Rightarrow> True
    | (PosInf, _) \<Rightarrow> False
    | (_, NegInf) \<Rightarrow> False)"

definition isFinite :: "jsnum \<Rightarrow> bool" where
  "isFinite a = (case a of Fin _ \<Rightarrow> True | _ \<Rightarrow> False)"

text \<open>
  With these operations \<open>jsnum\<close> is a type of amplitudes for the gate kernels below:
  its \<open>0\<close> and \<open>1\<close> are the numbers 0 and 1, \<open>x - y\<close> is \<open>x + (- y)\<close> as in IEEE
  arithmetic.
\<close>

instantiation jsnum :: "{zero, one, plus, minus, times, uminus}"
begin
definition zero_jsnum :: jsnum where "zero_jsnum = Fin 0"
definition one_jsnum :: jsnum where "one_jsnum = Fin 1"
definition plus_jsnum :: "jsnum \<Rightarrow> jsnum \<Rightarrow> jsnum" where "plus_jsnum a b = jadd a b"
definition minus_jsnum :: "jsnum \<Rightarrow> jsnum \<Rightarrow> jsnum" where "minus_jsnum a b = jadd a (jneg b)"
definition times_jsnum :: "jsnum \<Rightarrow> jsnum \<Rightarrow> jsnum" where "times_jsnum a b = jmul a b"
definition uminus_jsnum :: "jsnum \<Rightarrow> jsnum" where "uminus_jsnum a = jneg a"
instance ..
end

text \<open>
  \<open>theta / 2\<close>, \<open>Math.cos\<close> and \<open>Math.sin\<close>. The cosine and the sine of NaN and of
  an infinity are NaN. For a finite argument ECMA-262 leaves the accuracy of the result
  to the implementation; the model takes the exact value.
\<close>

definition jhalf :: "jsnum \<Rightarrow> jsnum" where
  "jhalf a = (case a of Fin x \<Rightarrow> Fin (x / 2) | NaN \<Rightarrow> NaN | PosInf \<Rightarrow> PosInf | NegInf \<Rightarrow> NegInf)"

definition jcos :: "jsnum \<Rightarrow> jsnum" where
  "jcos a = (case a of Fin x \<Rightarrow> Fin (cos x) | _ \<Rightarrow> NaN)"

definition jsin :: "jsnum \<Rightarrow> jsnum" where
  "jsin a = (case a of Fin x \<Rightarrow> Fin (sin x) | _ \<Rightarrow> NaN)"

text \<open>
  \<^verbatim>\<open>x >>> 0\<close> is ToUint32: NaN and the infinities give 0, a finite value is
  truncated towards zero and reduced modulo \<open>2^32\<close>.
\<close>

definition toUint32 :: "jsnum \<Rightarrow> 32 word" where
  "toUint32 a = (case a of
      Fin x \<Rightarrow> word_of_int (if 0 \<le> x then \<lfloor>x\<rfloor> else - \<lfloor>- x\<rfloor>)
    | _ \<Rightarrow> 0)"

text \<open>
  A counter that holds a non-negative integer is still a double. Every integer up to
  \<open>2^53\<close> is a double; above, a sum is rounded to the nearest double, which keeps
  53 significant bits, ties going to the even significand.
\<close>

fun bitlen :: "nat \<Rightarrow> nat" where
  "bitlen n = (if n = 0 then 0 else Suc (bitlen (n div 2)))"

declare bitlen.simps [simp del]

definition dblRound :: "nat \<Rightarrow> nat" where
  "dblRound x =
     (if x < 2 ^ 53 then x
      else let e = bitlen x - 53; q = x div 2 ^ e; r = x mod 2 ^ e
           in if 2 * r < 2 ^ e \<or> (2 * r = 2 ^ e \<and> even q) then q * 2 ^ e else (q + 1) * 2 ^ e)"

section \<open>Sampler: the seeded generator\<close>

text \<open>
  \<^verbatim>\<open>
  function mulberry32(seed: number) {
    let t = seed >>> 0
    return () => {
      t += 0x6d2b79f5
      let r = Math.imul(t ^ (t >>> 15), 1 | t)
      r ^= r + Math.imul(r ^ (r >>> 7), 61 | r)
      return ((r ^ (r >>> 14)) >>> 0) / 4294967296
    }
  }\<close>
  The closure's variable \<open>t\<close> is a number. \<open>mulberry32\<close> gives its initial value and
  \<open>rng\<close> is one call of the closure: it returns the new \<open>t\<close> together with the
  unsigned 32-bit numerator of the result. \<open>t += 0x6d2b79f5\<close> is an addition of
  doubles and nothing truncates its result; only the bitwise operators and
  \<open>Math.imul\<close> read \<open>t\<close> modulo \<open>2^32\<close>. The sum \<open>r + Math.imul(\<dots>)\<close> of two
  32-bit integers is exact, and the exclusive or reads it modulo \<open>2^32\<close>.
\<close>

definition mulberry32 :: "jsnum \<Rightarrow> nat" where
  "mulberry32 seed = unat (toUint32 seed)"

definition rng :: "nat \<Rightarrow> 32 word \<times> nat" where
  "rng t0 =
     (let t = dblRound (t0 + 0x6d2b79f5);
          w = (word_of_nat t :: 32 word);
          r = (w XOR drop_bit 15 w) * (1 OR w);
          r' = r XOR (r + (r XOR drop_bit 7 r) * (61 OR r))
      in (r' XOR drop_bit 14 r', t))"

definition unitFloat :: "32 word \<Rightarrow> jsnum" where
  "unitFloat u = Fin (real (unat u) / 4294967296)"

text \<open>The closure's \<open>t\<close> after \<open>k\<close> calls, and the numerator of the \<open>k\<close>-th value drawn.\<close>

fun rngStateAfter :: "nat \<Rightarrow> nat \<Rightarrow> nat" where
  "rngStateAfter t 0 = t"
| "rngStateAfter t (Suc k) = snd (rng (rngStateAfter t k))"

definition rngDraw :: "jsnum \<Rightarrow> nat \<Rightarrow> 32 word" where
  "rngDraw seed k = fst (rng (rngStateAfter (mulberry32 seed) (k - 1)))"

subsection \<open>The Mulberry32 reference of the specification\<close>

text \<open>
  The generator as the specification writes it: a 32-bit state, advanced modulo
  \<open>2^32\<close>, and two mixing rounds in 32-bit arithmetic.
\<close>

definition ref_next :: "32 word \<Rightarrow> 32 word \<times> 32 word" where
  "ref_next state =
     (let state' = state + 0x6D2B79F5;
          t = state';
          r = (t XOR drop_bit 15 t) * (t OR 1);
          r' = r XOR (r + (r XOR drop_bit 7 r) * (r OR 61))
      in (r' XOR drop_bit 14 r', state'))"

fun ref_stateAfter :: "32 word \<Rightarrow> nat \<Rightarrow> 32 word" where
  "ref_stateAfter s 0 = s"
| "ref_stateAfter s (Suc k) = snd (ref_next (ref_stateAfter s k))"

definition ref_draw :: "jsnum \<Rightarrow> nat \<Rightarrow> 32 word" where
  "ref_draw seed k = fst (ref_next (ref_stateAfter (toUint32 seed) (k - 1)))"

section \<open>Sampler: seeded multinomial draws\<close>

text \<open>
  \<^verbatim>\<open>
  export function sampleAllQubits(probs: Float64Array, shots: number, seed: number): Uint32Array {
    const safeShots = Number.isFinite(shots) ? Math.max(0, Math.floor(shots)) : 0
    const counts = new Uint32Array(probs.length)
    if (safeShots === 0 || probs.length === 0) return counts
    const cdf = new Float64Array(probs.length)
    let total = 0
    for (let i = 0; i < probs.length; i += 1) { total += probs[i]; cdf[i] = total }
    if (total === 0) return counts
    const rng = mulberry32(seed)
    for (let s = 0; s < safeShots; s += 1) {
      const r = rng() * total
      let lo = 0
      let hi = cdf.length - 1
      while (lo < hi) {
        const mid = (lo + hi) >> 1
        if (r <= cdf[mid]) { hi = mid } else { lo = mid + 1 }
      }
      counts[lo] += 1
    }
    return counts
  }\<close>
  The entries of \<open>probs\<close> are doubles (\<open>jsnum\<close>), the entries of \<open>counts\<close> are
  unsigned 32-bit integers (a \<open>Uint32Array\<close> wraps around), and the shot counter
  \<open>s\<close> is a double that holds an integer, so \<open>s += 1\<close> is \<open>dblRound (s + 1)\<close>.
  The loop over the shots has no bound other than \<open>safeShots\<close>; it is a partial
  function, and \<open>None\<close> is the run that never returns. \<open>(lo + hi) >> 1\<close> is the
  halving of a sum below \<open>2^31\<close>. The variable \<open>total\<close> of the source is \<open>tot\<close>
  here.
\<close>

definition safeShotsOf :: "jsnum \<Rightarrow> nat" where
  "safeShotsOf shots = (if isFinite shots then (case shots of Fin x \<Rightarrow> nat (max 0 \<lfloor>x\<rfloor>) | _ \<Rightarrow> 0) else 0)"

fun buildCdf :: "jsnum \<Rightarrow> jsnum list \<Rightarrow> jsnum list \<times> jsnum" where
  "buildCdf tot [] = ([], tot)"
| "buildCdf tot (p # ps) =
     (let tot1 = jadd tot p; (cdf, final) = buildCdf tot1 ps in (tot1 # cdf, final))"

text \<open>The binary search of one draw, from \<open>lo = 0\<close> and \<open>hi = cdf.length - 1\<close>.\<close>

function search :: "jsnum \<Rightarrow> jsnum list \<Rightarrow> nat \<Rightarrow> nat \<Rightarrow> nat" where
  "search r cdf lo hi =
     (if lo < hi
      then (let mid = (lo + hi) div 2
            in if jle r (cdf ! mid) then search r cdf lo mid else search r cdf (mid + 1) hi)
      else lo)"
  by pat_completeness auto
termination
  by (relation "measure (\<lambda>(r, cdf, lo, hi). hi - lo)") auto

declare search.simps [simp del]

text \<open>The index that the draw made in generator state \<open>t\<close> lands on.\<close>

definition drawIndex :: "jsnum list \<Rightarrow> jsnum \<Rightarrow> nat \<Rightarrow> nat" where
  "drawIndex cdf tot t = search (jmul (unitFloat (fst (rng t))) tot) cdf 0 (length cdf - 1)"

partial_function (option) shotsLoop ::
  "jsnum list \<Rightarrow> jsnum \<Rightarrow> nat \<Rightarrow> nat \<Rightarrow> nat \<Rightarrow> 32 word list \<Rightarrow> 32 word list option" where
  "shotsLoop cdf tot safeShots s t counts =
     (if s < safeShots
      then shotsLoop cdf tot safeShots (dblRound (s + 1)) (snd (rng t))
             (counts[drawIndex cdf tot t := counts ! drawIndex cdf tot t + 1])
      else Some counts)"

definition sampleAllQubits :: "jsnum list \<Rightarrow> jsnum \<Rightarrow> jsnum \<Rightarrow> 32 word list option" where
  "sampleAllQubits probs shots seed =
     (let safeShots = safeShotsOf shots;
          counts = replicate (length probs) 0
      in if safeShots = 0 \<or> length probs = 0 then Some counts
         else (let (cdf, tot) = buildCdf (Fin 0) probs
               in if tot = Fin 0 then Some counts
                  else shotsLoop cdf tot safeShots 0 (mulberry32 seed) counts))"


subsection \<open>The closure's variable in the store\<close>

text \<open>
  \<open>shotsLoop\<close> hands the generator's variable \<open>t\<close> from one draw to the next as an
  argument. In the running program that variable is a cell of the store: \<open>mulberry32\<close>
  allocates it when it builds the closure, every call of the closure reads and writes
  it, and it is still there when \<open>sampleAllQubits\<close> has returned. To state what a call
  of \<open>sampleAllQubits\<close> reads from the store it starts in, and what it leaves behind
  for the next call, the same code is written once more with the store explicit. A
  store is the list of the cells allocated so far, a closure is the address of its
  cell: \<open>mulberry32_new\<close> is \<open>mulberry32\<close> (a fresh cell, initialised with
  \<^verbatim>\<open>seed >>> 0\<close>), \<open>rng_call\<close> is one call of the closure at that address,
  and \<open>shotsLoop_st\<close> and \<open>sampleAllQubits_st\<close> return the counts together with the store
  as they leave it.
\<close>

type_synonym store = "nat list"

definition mulberry32_new :: "jsnum \<Rightarrow> store \<Rightarrow> nat \<times> store" where
  "mulberry32_new seed st = (length st, st @ [unat (toUint32 seed)])"

definition rng_call :: "nat \<Rightarrow> store \<Rightarrow> 32 word \<times> store" where
  "rng_call a st = (case rng (st ! a) of (u, t) \<Rightarrow> (u, st[a := t]))"

partial_function (option) shotsLoop_st ::
  "jsnum list \<Rightarrow> jsnum \<Rightarrow> nat \<Rightarrow> nat \<Rightarrow> nat \<Rightarrow> 32 word list \<Rightarrow> store
     \<Rightarrow> (32 word list \<times> store) option" where
  "shotsLoop_st cdf tot safeShots s a counts st =
     (if s < safeShots
      then (case rng_call a st of (u, st') \<Rightarrow>
              (let lo = search (jmul (unitFloat u) tot) cdf 0 (length cdf - 1)
               in shotsLoop_st cdf tot safeShots (dblRound (s + 1)) a
                    (counts[lo := counts ! lo + 1]) st'))
      else Some (counts, st))"

definition sampleAllQubits_st ::
  "jsnum list \<Rightarrow> jsnum \<Rightarrow> jsnum \<Rightarrow> store \<Rightarrow> (32 word list \<times> store) option" where
  "sampleAllQubits_st probs shots seed st =
     (let safeShots = safeShotsOf shots;
          counts = replicate (length probs) 0
      in if safeShots = 0 \<or> length probs = 0 then Some (counts, st)
         else (let (cdf, tot) = buildCdf (Fin 0) probs
               in if tot = Fin 0 then Some (counts, st)
                  else (case mulberry32_new seed st of (a, st') \<Rightarrow>
                          shotsLoop_st cdf tot safeShots 0 a counts st')))"

section \<open>State vector\<close>

text \<open>
  \<^verbatim>\<open>
  export type Complex = { re: number; im: number }
  export type StateVector = { nQubits: number; re: Float64Array; im: Float64Array }
  type ComplexMatrix2 = { m00: Complex; m01: Complex; m10: Complex; m11: Complex }\<close>
  The kernels only add, subtract and multiply amplitudes, so the records leave the type
  of an amplitude open; the gates that need \<open>sqrt\<close>, \<open>cos\<close> and \<open>sin\<close> take it to
  be \<open>real\<close>, that is exact arithmetic, and are given once more on \<open>jsnum\<close> further
  down. The fields \<open>re\<close> and \<open>im\<close> of \<open>Complex\<close> are
  \<open>cre\<close> and \<open>cim\<close> here, since \<open>StateVector\<close> has fields of the same names. Qubit
  counts and qubit indices are integers: a number that is not an integer fails
  \<open>Number.isInteger\<close> in the same assertions that reject an integer out of range.
\<close>

record 'a Complex_num =
  cre :: 'a
  cim :: 'a

record 'a ComplexMatrix2 =
  m00 :: "'a Complex_num"
  m01 :: "'a Complex_num"
  m10 :: "'a Complex_num"
  m11 :: "'a Complex_num"

record 'a StateVector =
  nQubits :: int
  re :: "'a list"
  im :: "'a list"

text \<open>
  The source throws \<open>Error\<close> with a message; the four constructors are the four kinds
  of message: an invalid or too large qubit count (\<open>assertValidQubitCount\<close>), an
  invalid qubit index (\<open>assertQubitIndex\<close>), identical control and target (CNOT and
  CZ), and a qubit touched twice in one step (\<open>validateStep\<close>).
\<close>

datatype error = InvalidQubitCount | InvalidQubitIndex | InvalidGateArgs | InvalidStep

definition MAX_SIM_QUBITS :: int where
  "MAX_SIM_QUBITS = 20"

definition assertValidQubitCount :: "int \<Rightarrow> error option" where
  "assertValidQubitCount n =
     (if n \<le> 0 then Some InvalidQubitCount
      else if n > MAX_SIM_QUBITS then Some InvalidQubitCount
      else None)"

text \<open>
  \<^verbatim>\<open>1 << (nQubits - 1 - qubitIndex)\<close>. On every state that \<open>zeroState\<close> can create
  and every index that \<open>assertQubitIndex\<close> accepts, the shift count lies between 0
  and 19, where the 32-bit shift is the power of two.
\<close>

definition maskForQubit :: "int \<Rightarrow> int \<Rightarrow> nat" where
  "maskForQubit n qubitIndex = 2 ^ nat (n - 1 - qubitIndex)"

definition assertQubitIndex :: "int \<Rightarrow> int \<Rightarrow> error option" where
  "assertQubitIndex n q = (if q < 0 \<or> q \<ge> n then Some InvalidQubitIndex else None)"

definition zeroState :: "int \<Rightarrow> error + ('a :: {zero, one}) StateVector" where
  "zeroState n =
     (case assertValidQubitCount n of
        Some e \<Rightarrow> Inl e
      | None \<Rightarrow>
          (let size = 2 ^ nat n
           in Inr \<lparr>nQubits = n, re = (replicate size 0)[0 := 1], im = replicate size 0\<rparr>))"

text \<open>
  A state as the specification's data model has it: between 1 and 20 qubits, and two
  buffers of \<open>2^n\<close> amplitudes each.
\<close>

definition wf_state :: "'a StateVector \<Rightarrow> bool" where
  "wf_state s \<longleftrightarrow>
     1 \<le> nQubits s \<and> nQubits s \<le> MAX_SIM_QUBITS
     \<and> length (re s) = 2 ^ nat (nQubits s) \<and> length (im s) = 2 ^ nat (nQubits s)"

section \<open>Gate kernels\<close>

text \<open>
  A kernel mutates the buffers of the state it is given, or throws. Its model returns
  the buffers as the call leaves them together with the error thrown, if any, so that
  what a failed call did to the state can be stated. The loops run over the indices
  \<open>0, \<dots>, re.length - 1\<close> in order (the length of a typed array is fixed); a write
  \<open>re[i] = v\<close> is the list update \<open>re[i := v]\<close>. Inside a loop body the buffers
  are \<open>re'\<close> and \<open>im'\<close>, and the variable \<open>mask\<close> of the source is \<open>qmask\<close>.
  On a state whose two buffers have \<open>2^n\<close> entries every slot that a kernel reads or
  writes exists; the properties below are stated for such states (\<open>wf_state\<close>).
\<close>

type_synonym 'a outcome = "error option \<times> 'a StateVector"

text \<open>
  \<^verbatim>\<open>
  for (let i = 0; i < re.length; i += 1) {
    if (i & mask) continue
    const j = i | mask
    const aRe = re[i]; const aIm = im[i]; const bRe = re[j]; const bIm = im[j]
    const out0Re = (m00.re * aRe - m00.im * aIm) + (m01.re * bRe - m01.im * bIm)
    const out0Im = (m00.re * aIm + m00.im * aRe) + (m01.re * bIm + m01.im * bRe)
    const out1Re = (m10.re * aRe - m10.im * aIm) + (m11.re * bRe - m11.im * bIm)
    const out1Im = (m10.re * aIm + m10.im * aRe) + (m11.re * bIm + m11.im * bRe)
    re[i] = out0Re; im[i] = out0Im; re[j] = out1Re; im[j] = out1Im
  }\<close>
\<close>

definition singleQubitStep ::
  "('a :: {plus, minus, times}) ComplexMatrix2 \<Rightarrow> nat \<Rightarrow> nat \<Rightarrow> 'a list \<times> 'a list \<Rightarrow> 'a list \<times> 'a list" where
  "singleQubitStep m qmask i bufs =
     (case bufs of (re', im') \<Rightarrow>
        if i AND qmask \<noteq> 0 then (re', im')
        else
          (let j = i OR qmask;
               aRe = re' ! i; aIm = im' ! i; bRe = re' ! j; bIm = im' ! j;
               out0Re = (cre (m00 m) * aRe - cim (m00 m) * aIm) + (cre (m01 m) * bRe - cim (m01 m) * bIm);
               out0Im = (cre (m00 m) * aIm + cim (m00 m) * aRe) + (cre (m01 m) * bIm + cim (m01 m) * bRe);
               out1Re = (cre (m10 m) * aRe - cim (m10 m) * aIm) + (cre (m11 m) * bRe - cim (m11 m) * bIm);
               out1Im = (cre (m10 m) * aIm + cim (m10 m) * aRe) + (cre (m11 m) * bIm + cim (m11 m) * bRe)
           in (re'[i := out0Re, j := out1Re], im'[i := out0Im, j := out1Im])))"

definition applySingleQubitMatrix ::
  "('a :: {plus, minus, times}) StateVector \<Rightarrow> int \<Rightarrow> 'a ComplexMatrix2 \<Rightarrow> 'a outcome" where
  "applySingleQubitMatrix state target m =
     (case assertQubitIndex (nQubits state) target of
        Some e \<Rightarrow> (Some e, state)
      | None \<Rightarrow>
          (let qmask = maskForQubit (nQubits state) target;
               bufs = fold (singleQubitStep m qmask) [0..<length (re state)] (re state, im state)
           in (None, state\<lparr>re := fst bufs, im := snd bufs\<rparr>)))"

definition cx :: "'a \<Rightarrow> 'a \<Rightarrow> 'a Complex_num" where
  "cx a b = \<lparr>cre = a, cim = b\<rparr>"

definition applyH :: "real StateVector \<Rightarrow> int \<Rightarrow> real outcome" where
  "applyH state target =
     (let s = 1 / sqrt 2
      in applySingleQubitMatrix state target
           \<lparr>m00 = cx s 0, m01 = cx s 0, m10 = cx s 0, m11 = cx (- s) 0\<rparr>)"

definition applyX ::
  "('a :: {zero, one, uminus, plus, minus, times}) StateVector \<Rightarrow> int \<Rightarrow> 'a outcome" where
  "applyX state target =
     applySingleQubitMatrix state target
       \<lparr>m00 = cx 0 0, m01 = cx 1 0, m10 = cx 1 0, m11 = cx 0 0\<rparr>"

definition applyY ::
  "('a :: {zero, one, uminus, plus, minus, times}) StateVector \<Rightarrow> int \<Rightarrow> 'a outcome" where
  "applyY state target =
     applySingleQubitMatrix state target
       \<lparr>m00 = cx 0 0, m01 = cx 0 (- 1), m10 = cx 0 1, m11 = cx 0 0\<rparr>"

definition applyZ ::
  "('a :: {zero, one, uminus, plus, minus, times}) StateVector \<Rightarrow> int \<Rightarrow> 'a outcome" where
  "applyZ state target =
     applySingleQubitMatrix state target
       \<lparr>m00 = cx 1 0, m01 = cx 0 0, m10 = cx 0 0, m11 = cx (- 1) 0\<rparr>"

definition applyS ::
  "('a :: {zero, one, uminus, plus, minus, times}) StateVector \<Rightarrow> int \<Rightarrow> 'a outcome" where
  "applyS state target =
     applySingleQubitMatrix state target
       \<lparr>m00 = cx 1 0, m01 = cx 0 0, m10 = cx 0 0, m11 = cx 0 1\<rparr>"

text \<open>\<open>Math.SQRT1_2\<close> is the square root of one half.\<close>

definition applyT :: "real StateVector \<Rightarrow> int \<Rightarrow> real outcome" where
  "applyT state target =
     (let c = sqrt (1 / 2)
      in applySingleQubitMatrix state target
           \<lparr>m00 = cx 1 0, m01 = cx 0 0, m10 = cx 0 0, m11 = cx c c\<rparr>)"

definition applyRX :: "real StateVector \<Rightarrow> int \<Rightarrow> real \<Rightarrow> real outcome" where
  "applyRX state target theta =
     (let c = cos (theta / 2); s = sin (theta / 2)
      in applySingleQubitMatrix state target
           \<lparr>m00 = cx c 0, m01 = cx 0 (- s), m10 = cx 0 (- s), m11 = cx c 0\<rparr>)"

definition applyRY :: "real StateVector \<Rightarrow> int \<Rightarrow> real \<Rightarrow> real outcome" where
  "applyRY state target theta =
     (let c = cos (theta / 2); s = sin (theta / 2)
      in applySingleQubitMatrix state target
           \<lparr>m00 = cx c 0, m01 = cx (- s) 0, m10 = cx s 0, m11 = cx c 0\<rparr>)"

definition applyRZ :: "real StateVector \<Rightarrow> int \<Rightarrow> real \<Rightarrow> real outcome" where
  "applyRZ state target theta =
     (let c = cos (theta / 2); s = sin (theta / 2)
      in applySingleQubitMatrix state target
           \<lparr>m00 = cx c (- s), m01 = cx 0 0, m10 = cx 0 0, m11 = cx c s\<rparr>)"

text \<open>
  \<^verbatim>\<open>
  for (let i = 0; i < re.length; i += 1) {
    if ((i & controlMask) === 0) continue
    if (i & targetMask) continue
    const j = i | targetMask
    const tmpRe = re[i]; const tmpIm = im[i]
    re[i] = re[j]; im[i] = im[j]; re[j] = tmpRe; im[j] = tmpIm
  }\<close>
\<close>

definition cnotStep :: "nat \<Rightarrow> nat \<Rightarrow> nat \<Rightarrow> 'a list \<times> 'a list \<Rightarrow> 'a list \<times> 'a list" where
  "cnotStep controlMask targetMask i bufs =
     (case bufs of (re', im') \<Rightarrow>
        if i AND controlMask = 0 then (re', im')
        else if i AND targetMask \<noteq> 0 then (re', im')
        else
          (let j = i OR targetMask; tmpRe = re' ! i; tmpIm = im' ! i
           in (re'[i := re' ! j, j := tmpRe], im'[i := im' ! j, j := tmpIm])))"

definition applyCNOT :: "'a StateVector \<Rightarrow> int \<Rightarrow> int \<Rightarrow> 'a outcome" where
  "applyCNOT state control target =
     (case assertQubitIndex (nQubits state) control of
        Some e \<Rightarrow> (Some e, state)
      | None \<Rightarrow>
     (case assertQubitIndex (nQubits state) target of
        Some e \<Rightarrow> (Some e, state)
      | None \<Rightarrow>
          if control = target then (Some InvalidGateArgs, state)
          else
            (let controlMask = maskForQubit (nQubits state) control;
                 targetMask = maskForQubit (nQubits state) target;
                 bufs = fold (cnotStep controlMask targetMask) [0..<length (re state)]
                          (re state, im state)
             in (None, state\<lparr>re := fst bufs, im := snd bufs\<rparr>))))"

text \<open>
  \<^verbatim>\<open>
  for (let i = 0; i < re.length; i += 1) {
    if ((i & controlMask) === 0) continue
    if ((i & targetMask) === 0) continue
    re[i] *= -1
    im[i] *= -1
  }\<close>
\<close>

definition czStep ::
  "nat \<Rightarrow> nat \<Rightarrow> nat \<Rightarrow> ('a :: {times, uminus, one}) list \<times> 'a list \<Rightarrow> 'a list \<times> 'a list" where
  "czStep controlMask targetMask i bufs =
     (case bufs of (re', im') \<Rightarrow>
        if i AND controlMask = 0 then (re', im')
        else if i AND targetMask = 0 then (re', im')
        else (re'[i := re' ! i * (- 1)], im'[i := im' ! i * (- 1)]))"

definition applyCZ :: "('a :: {times, uminus, one}) StateVector \<Rightarrow> int \<Rightarrow> int \<Rightarrow> 'a outcome" where
  "applyCZ state control target =
     (case assertQubitIndex (nQubits state) control of
        Some e \<Rightarrow> (Some e, state)
      | None \<Rightarrow>
     (case assertQubitIndex (nQubits state) target of
        Some e \<Rightarrow> (Some e, state)
      | None \<Rightarrow>
          if control = target then (Some InvalidGateArgs, state)
          else
            (let controlMask = maskForQubit (nQubits state) control;
                 targetMask = maskForQubit (nQubits state) target;
                 bufs = fold (czStep controlMask targetMask) [0..<length (re state)]
                          (re state, im state)
             in (None, state\<lparr>re := fst bufs, im := snd bufs\<rparr>))))"

text \<open>
  \<^verbatim>\<open>
  if (a === b) return
  ...
  for (let i = 0; i < re.length; i += 1) {
    const bitA = i & maskA
    const bitB = i & maskB
    if (!!bitA === !!bitB) continue
    const j = i ^ maskA ^ maskB
    if (j < i) continue
    const tmpRe = re[i]; const tmpIm = im[i]
    re[i] = re[j]; im[i] = im[j]; re[j] = tmpRe; im[j] = tmpIm
  }\<close>
\<close>

definition swapStep :: "nat \<Rightarrow> nat \<Rightarrow> nat \<Rightarrow> 'a list \<times> 'a list \<Rightarrow> 'a list \<times> 'a list" where
  "swapStep maskA maskB i bufs =
     (case bufs of (re', im') \<Rightarrow>
        (let bitA = i AND maskA; bitB = i AND maskB
         in if (bitA \<noteq> 0) = (bitB \<noteq> 0) then (re', im')
            else
              (let j = (i XOR maskA) XOR maskB
               in if j < i then (re', im')
                  else
                    (let tmpRe = re' ! i; tmpIm = im' ! i
                     in (re'[i := re' ! j, j := tmpRe], im'[i := im' ! j, j := tmpIm])))))"

definition applySWAP :: "'a StateVector \<Rightarrow> int \<Rightarrow> int \<Rightarrow> 'a outcome" where
  "applySWAP state a b =
     (case assertQubitIndex (nQubits state) a of
        Some e \<Rightarrow> (Some e, state)
      | None \<Rightarrow>
     (case assertQubitIndex (nQubits state) b of
        Some e \<Rightarrow> (Some e, state)
      | None \<Rightarrow>
          if a = b then (None, state)
          else
            (let maskA = maskForQubit (nQubits state) a;
                 maskB = maskForQubit (nQubits state) b;
                 bufs = fold (swapStep maskA maskB) [0..<length (re state)] (re state, im state)
             in (None, state\<lparr>re := fst bufs, im := snd bufs\<rparr>))))"

section \<open>Circuit executor\<close>

text \<open>
  The tagged union \<open>GateOp\<close>, one constructor for each \<open>kind\<close> with its fields in the
  order of the source (\<open>target\<close>; \<open>target\<close>, \<open>theta\<close>; \<open>control\<close>, \<open>target\<close>;
  \<open>a\<close>, \<open>b\<close>). The type of an angle is left open, as the type of an amplitude is:
  an angle is a real number for the executor in exact arithmetic, as in the
  specification's data model, and a \<open>jsnum\<close> for the executor on JavaScript numbers.
  The field \<open>nQubits\<close> of a circuit is \<open>circuitQubits\<close> here.
\<close>

datatype 'a GateOp =
    OpH int | OpX int | OpY int | OpZ int | OpS int | OpT int
  | OpRX int 'a | OpRY int 'a | OpRZ int 'a
  | OpCNOT int int | OpCZ int int
  | OpSWAP int int
  | OpMEASURE int

record 'a Circuit =
  circuitQubits :: int
  steps :: "'a GateOp list list"

fun touchedQubits :: "'a GateOp \<Rightarrow> int list" where
  "touchedQubits (OpH target) = [target]"
| "touchedQubits (OpX target) = [target]"
| "touchedQubits (OpY target) = [target]"
| "touchedQubits (OpZ target) = [target]"
| "touchedQubits (OpS target) = [target]"
| "touchedQubits (OpT target) = [target]"
| "touchedQubits (OpRX target theta) = [target]"
| "touchedQubits (OpRY target theta) = [target]"
| "touchedQubits (OpRZ target theta) = [target]"
| "touchedQubits (OpMEASURE target) = [target]"
| "touchedQubits (OpCNOT control target) = [control, target]"
| "touchedQubits (OpCZ control target) = [control, target]"
| "touchedQubits (OpSWAP a b) = [a, b]"

text \<open>
  \<^verbatim>\<open>
  const touched = new Array<boolean>(nQubits).fill(false)
  for (const op of step) {
    const qs = touchedQubits(op)
    for (const q of qs) {
      assertQubitIndex(nQubits, q)
      if (touched[q]) { throw new Error(`Invalid step: multiple ops touch q${q}.`) }
      touched[q] = true
    }
  }\<close>
  The inner loop is \<open>markQubits\<close>, the outer one \<open>validateOps\<close>; both return the
  error thrown or the array \<open>touched\<close> as they leave it.
\<close>

fun markQubits :: "int \<Rightarrow> int list \<Rightarrow> bool list \<Rightarrow> error + bool list" where
  "markQubits n [] touched = Inr touched"
| "markQubits n (q # qs) touched =
     (case assertQubitIndex n q of
        Some e \<Rightarrow> Inl e
      | None \<Rightarrow>
          if touched ! nat q then Inl InvalidStep
          else markQubits n qs (touched[nat q := True]))"

fun validateOps :: "int \<Rightarrow> 'a GateOp list \<Rightarrow> bool list \<Rightarrow> error + bool list" where
  "validateOps n [] touched = Inr touched"
| "validateOps n (op # ops) touched =
     (case markQubits n (touchedQubits op) touched of
        Inl e \<Rightarrow> Inl e
      | Inr touched' \<Rightarrow> validateOps n ops touched')"

definition validateStep :: "int \<Rightarrow> 'a GateOp list \<Rightarrow> error option" where
  "validateStep n step =
     (case validateOps n step (replicate (nat n) False) of Inl e \<Rightarrow> Some e | Inr _ \<Rightarrow> None)"

fun applyOp :: "real StateVector \<Rightarrow> real GateOp \<Rightarrow> real outcome" where
  "applyOp state (OpH target) = applyH state target"
| "applyOp state (OpX target) = applyX state target"
| "applyOp state (OpY target) = applyY state target"
| "applyOp state (OpZ target) = applyZ state target"
| "applyOp state (OpS target) = applyS state target"
| "applyOp state (OpT target) = applyT state target"
| "applyOp state (OpRX target theta) = applyRX state target theta"
| "applyOp state (OpRY target theta) = applyRY state target theta"
| "applyOp state (OpRZ target theta) = applyRZ state target theta"
| "applyOp state (OpCNOT control target) = applyCNOT state control target"
| "applyOp state (OpCZ control target) = applyCZ state control target"
| "applyOp state (OpSWAP a b) = applySWAP state a b"
| "applyOp state (OpMEASURE target) = (None, state)"

text \<open>
  \<^verbatim>\<open>
  export function simulateCircuit(circuit: Circuit): StateVector {
    assertValidQubitCount(circuit.nQubits)
    const state = zeroState(circuit.nQubits)
    for (const step of circuit.steps) {
      validateStep(circuit.nQubits, step)
      for (const op of step) { applyOp(state, op) }
    }
    return state
  }\<close>
  An error thrown by a validation or by a kernel ends the simulation; the state is local
  to the call, so the result is the error or the final state.
\<close>

fun applyOps :: "real StateVector \<Rightarrow> real GateOp list \<Rightarrow> real outcome" where
  "applyOps state [] = (None, state)"
| "applyOps state (op # ops) =
     (case applyOp state op of
        (Some e, state') \<Rightarrow> (Some e, state')
      | (None, state') \<Rightarrow> applyOps state' ops)"

fun runSteps :: "int \<Rightarrow> real GateOp list list \<Rightarrow> real StateVector \<Rightarrow> error + real StateVector" where
  "runSteps n [] state = Inr state"
| "runSteps n (step # rest) state =
     (case validateStep n step of
        Some e \<Rightarrow> Inl e
      | None \<Rightarrow>
          (case applyOps state step of
             (Some e, _) \<Rightarrow> Inl e
           | (None, state') \<Rightarrow> runSteps n rest state'))"

definition simulateCircuit :: "real Circuit \<Rightarrow> error + real StateVector" where
  "simulateCircuit circuit =
     (case assertValidQubitCount (circuitQubits circuit) of
        Some e \<Rightarrow> Inl e
      | None \<Rightarrow>
          (case zeroState (circuitQubits circuit) of
             Inl e \<Rightarrow> Inl e
           | Inr state \<Rightarrow> runSteps (circuitQubits circuit) (steps circuit) state))"

section \<open>Gates and executor on JavaScript numbers\<close>

text \<open>
  The gates H, T, RX, RY and RZ and the executor above compute with real numbers: every
  angle is finite and no operation yields NaN. In the source an angle is a \<open>number\<close>,
  and \<open>validateStep\<close> looks at qubit indices only; \<open>theta\<close> can be NaN or infinite,
  \<open>Math.cos\<close> and \<open>Math.sin\<close> then return NaN, and the arithmetic of the kernel carries
  it into the amplitudes. This section is the same code with \<open>jsnum\<close> for angles and
  amplitudes. The kernels and the gates X, Y, Z and S are the definitions above, taken
  at that type; H, T, RX, RY and RZ are written again, with \<open>1 / Math.sqrt(2)\<close> and
  \<open>Math.SQRT1_2\<close> as the exact numbers; \<open>applyOp_js\<close>, \<open>applyOps_js\<close>,
  \<open>runSteps_js\<close> and \<open>simulateCircuit_js\<close> are \<open>applyOp\<close>, the two loops and
  \<open>simulateCircuit\<close>.

  What this executor computes on special values is what the source computes. On finite
  values it computes without rounding. The kernels of X, Y, Z, S, CNOT, CZ and SWAP
  multiply amplitudes by 0, 1 and -1, add the products and move them; on amplitudes that
  are themselves 0, 1 or -1 every such product and sum is a small integer, which the
  double operation returns exactly. H and T multiply by an irrational number, RX, RY and
  RZ by a cosine and a sine: their finite results are rounded in the source and exact
  here, and no statement below depends on them.
\<close>

definition applyH_js :: "jsnum StateVector \<Rightarrow> int \<Rightarrow> jsnum outcome" where
  "applyH_js state target =
     (let s = Fin (1 / sqrt 2)
      in applySingleQubitMatrix state target
           \<lparr>m00 = cx s 0, m01 = cx s 0, m10 = cx s 0, m11 = cx (- s) 0\<rparr>)"

definition applyT_js :: "jsnum StateVector \<Rightarrow> int \<Rightarrow> jsnum outcome" where
  "applyT_js state target =
     (let c = Fin (sqrt (1 / 2))
      in applySingleQubitMatrix state target
           \<lparr>m00 = cx 1 0, m01 = cx 0 0, m10 = cx 0 0, m11 = cx c c\<rparr>)"

definition applyRX_js :: "jsnum StateVector \<Rightarrow> int \<Rightarrow> jsnum \<Rightarrow> jsnum outcome" where
  "applyRX_js state target theta =
     (let c = jcos (jhalf theta); s = jsin (jhalf theta)
      in applySingleQubitMatrix state target
           \<lparr>m00 = cx c 0, m01 = cx 0 (- s), m10 = cx 0 (- s), m11 = cx c 0\<rparr>)"

definition applyRY_js :: "jsnum StateVector \<Rightarrow> int \<Rightarrow> jsnum \<Rightarrow> jsnum outcome" where
  "applyRY_js state target theta =
     (let c = jcos (jhalf theta); s = jsin (jhalf theta)
      in applySingleQubitMatrix state target
           \<lparr>m00 = cx c 0, m01 = cx (- s) 0, m10 = cx s 0, m11 = cx c 0\<rparr>)"

definition applyRZ_js :: "jsnum StateVector \<Rightarrow> int \<Rightarrow> jsnum \<Rightarrow> jsnum outcome" where
  "applyRZ_js state target theta =
     (let c = jcos (jhalf theta); s = jsin (jhalf theta)
      in applySingleQubitMatrix state target
           \<lparr>m00 = cx c (- s), m01 = cx 0 0, m10 = cx 0 0, m11 = cx c s\<rparr>)"

fun applyOp_js :: "jsnum StateVector \<Rightarrow> jsnum GateOp \<Rightarrow> jsnum outcome" where
  "applyOp_js state (OpH target) = applyH_js state target"
| "applyOp_js state (OpX target) = applyX state target"
| "applyOp_js state (OpY target) = applyY state target"
| "applyOp_js state (OpZ target) = applyZ state target"
| "applyOp_js state (OpS target) = applyS state target"
| "applyOp_js state (OpT target) = applyT_js state target"
| "applyOp_js state (OpRX target theta) = applyRX_js state target theta"
| "applyOp_js state (OpRY target theta) = applyRY_js state target theta"
| "applyOp_js state (OpRZ target theta) = applyRZ_js state target theta"
| "applyOp_js state (OpCNOT control target) = applyCNOT state control target"
| "applyOp_js state (OpCZ control target) = applyCZ state control target"
| "applyOp_js state (OpSWAP a b) = applySWAP state a b"
| "applyOp_js state (OpMEASURE target) = (None, state)"

fun applyOps_js :: "jsnum StateVector \<Rightarrow> jsnum GateOp list \<Rightarrow> jsnum outcome" where
  "applyOps_js state [] = (None, state)"
| "applyOps_js state (op # ops) =
     (case applyOp_js state op of
        (Some e, state') \<Rightarrow> (Some e, state')
      | (None, state') \<Rightarrow> applyOps_js state' ops)"

fun runSteps_js :: "int \<Rightarrow> jsnum GateOp list list \<Rightarrow> jsnum StateVector \<Rightarrow> error + jsnum StateVector" where
  "runSteps_js n [] state = Inr state"
| "runSteps_js n (step # rest) state =
     (case validateStep n step of
        Some e \<Rightarrow> Inl e
      | None \<Rightarrow>
          (case applyOps_js state step of
             (Some e, _) \<Rightarrow> Inl e
           | (None, state') \<Rightarrow> runSteps_js n rest state'))"

definition simulateCircuit_js :: "jsnum Circuit \<Rightarrow> error + jsnum StateVector" where
  "simulateCircuit_js circuit =
     (case assertValidQubitCount (circuitQubits circuit) of
        Some e \<Rightarrow> Inl e
      | None \<Rightarrow>
          (case zeroState (circuitQubits circuit) of
             Inl e \<Rightarrow> Inl e
           | Inr state \<Rightarrow> runSteps_js (circuitQubits circuit) (steps circuit) state))"


section \<open>Observables: probabilities and Bloch vector\<close>


text \<open>The norm of the invariant: the sum of \<open>re[k]^2 + im[k]^2\<close> over all basis indices.\<close>

definition norm2 :: "real StateVector \<Rightarrow> real" where
  "norm2 state = (\<Sum>k<length (re state). (re state ! k)\<^sup>2 + (im state ! k)\<^sup>2)"



text \<open>
  \<^verbatim>\<open>
  for (let i = 0; i < re.length; i += 1) {
    if (i & mask) continue
    const j = i | mask
    const aRe = re[i]; const aIm = im[i]; const bRe = re[j]; const bIm = im[j]
    rho00 += aRe * aRe + aIm * aIm
    rho11 += bRe * bRe + bIm * bIm
    rho01Re += aRe * bRe + aIm * bIm
    rho01Im += aIm * bRe - aRe * bIm
  }
  return { x: 2 * rho01Re, y: -2 * rho01Im, z: rho00 - rho11 }\<close>
  The variable \<open>mask\<close> of the source is \<open>qmask\<close> here. The accumulators are the
  quadruple \<open>(rho00, rho11, rho01Re, rho01Im)\<close>; the fields \<open>x\<close>, \<open>y\<close>, \<open>z\<close> of
  the result are \<open>bloch_x\<close>, \<open>bloch_y\<close>, \<open>bloch_z\<close>.
\<close>

record BlochVector =
  bloch_x :: real
  bloch_y :: real
  bloch_z :: real

definition blochStep ::
  "real list \<Rightarrow> real list \<Rightarrow> nat \<Rightarrow> nat \<Rightarrow> real \<times> real \<times> real \<times> real \<Rightarrow> real \<times> real \<times> real \<times> real" where
  "blochStep re' im' qmask i acc =
     (case acc of (rho00, rho11, rho01Re, rho01Im) \<Rightarrow>
        if i AND qmask \<noteq> 0 then acc
        else
          (let j = i OR qmask;
               aRe = re' ! i; aIm = im' ! i; bRe = re' ! j; bIm = im' ! j
           in (rho00 + (aRe * aRe + aIm * aIm),
               rho11 + (bRe * bRe + bIm * bIm),
               rho01Re + (aRe * bRe + aIm * bIm),
               rho01Im + (aIm * bRe - aRe * bIm))))"

definition blochVector :: "real StateVector \<Rightarrow> int \<Rightarrow> error + BlochVector" where
  "blochVector state qubit =
     (case assertQubitIndex (nQubits state) qubit of
        Some e \<Rightarrow> Inl e
      | None \<Rightarrow>
          (let qmask = maskForQubit (nQubits state) qubit
           in case fold (blochStep (re state) (im state) qmask) [0..<length (re state)] (0, 0, 0, 0) of
                (rho00, rho11, rho01Re, rho01Im) \<Rightarrow>
                  Inr \<lparr>bloch_x = 2 * rho01Re, bloch_y = - 2 * rho01Im, bloch_z = rho00 - rho11\<rparr>))"

section \<open>Observables: basis-index formatting\<close>

text \<open>
  The source formats a basis index with
  \<^verbatim>\<open>index.toString(2).padStart(nQubits, '0')\<close>.
  \<open>toString2\<close> is the radix-2 rendering of a non-negative integer: most significant
  digit first, no leading zero, and the single digit \<open>0\<close> for zero.
  \<open>padStart\<close> prepends the fill character until the target length is reached and
  leaves a string that is already long enough untouched.
\<close>

definition digit2 :: "nat \<Rightarrow> char" where
  "digit2 d = (if d = 0 then CHR ''0'' else CHR ''1'')"

fun toString2 :: "nat \<Rightarrow> string" where
  "toString2 k = (if k < 2 then [digit2 k] else toString2 (k div 2) @ [digit2 (k mod 2)])"

declare toString2.simps [simp del]

definition padStart :: "string \<Rightarrow> nat \<Rightarrow> char \<Rightarrow> string" where
  "padStart s n c = replicate (n - length s) c @ s"

definition bitstring :: "nat \<Rightarrow> nat \<Rightarrow> string" where
  "bitstring index n = padStart (toString2 index) n (CHR ''0'')"

text \<open>
  The reading of a binary numeral that the specification calls \<open>parse_binary\<close>:
  leftmost character most significant.
\<close>

definition parse_binary :: "string \<Rightarrow> nat" where
  "parse_binary s = foldl (\<lambda>acc ch. 2 * acc + (if ch = CHR ''1'' then 1 else 0)) 0 s"

section \<open>Auxiliary notions for the statements and proofs\<close>

text \<open>The states \<open>|0>\<close>, \<open>H|0>\<close> and \<open>S H|0>\<close> on one qubit.\<close>

definition ket0 :: "real StateVector" where
  "ket0 = \<lparr>nQubits = 1, re = [1, 0], im = [0, 0]\<rparr>"

definition ketPlus :: "real StateVector" where
  "ketPlus = \<lparr>nQubits = 1, re = [1 / sqrt 2, 1 / sqrt 2], im = [0, 0]\<rparr>"

definition ketPlusI :: "real StateVector" where
  "ketPlusI = \<lparr>nQubits = 1, re = [1 / sqrt 2, 0], im = [0, 1 / sqrt 2]\<rparr>"

text \<open>\<open>MEASURE\<close> is the one operation that has no kernel.\<close>

definition isMeasure :: "'a GateOp \<Rightarrow> bool" where
  "isMeasure op = (case op of OpMEASURE _ \<Rightarrow> True | _ \<Rightarrow> False)"

text \<open>
  The loops of the single-qubit kernel, of CNOT and of SWAP have one shape: an index
  \<open>i\<close> is either skipped or rewritten together with a partner index from the values
  the two slots hold. \<open>pairStep\<close> is that shape, \<open>quad\<close> reads the four values of
  a pair of slots, and \<open>pairInv\<close> is the loop invariant after the indices below
  \<open>k\<close>: processed pairs hold their new values, computed from the initial buffers, and
  every other slot holds its initial value. \<open>sqOut\<close> is the single-qubit kernel's
  right-hand sides.
\<close>

definition pairStep ::
  "(nat \<Rightarrow> bool) \<Rightarrow> (nat \<Rightarrow> nat) \<Rightarrow> ('a \<Rightarrow> 'a \<Rightarrow> 'a \<Rightarrow> 'a \<Rightarrow> 'a \<times> 'a \<times> 'a \<times> 'a)
     \<Rightarrow> nat \<Rightarrow> 'a list \<times> 'a list \<Rightarrow> 'a list \<times> 'a list" where
  "pairStep act ptn F i bufs =
     (case bufs of (re', im') \<Rightarrow>
        if act i
        then (case F (re' ! i) (im' ! i) (re' ! ptn i) (im' ! ptn i) of
                (r0, i0, r1, i1) \<Rightarrow> (re'[i := r0, ptn i := r1], im'[i := i0, ptn i := i1]))
        else (re', im'))"

definition quad :: "'a list \<Rightarrow> 'a list \<Rightarrow> nat \<Rightarrow> nat \<Rightarrow> 'a \<times> 'a \<times> 'a \<times> 'a" where
  "quad rs js i j = (rs ! i, js ! i, rs ! j, js ! j)"

definition pairInv ::
  "(nat \<Rightarrow> bool) \<Rightarrow> (nat \<Rightarrow> nat) \<Rightarrow> ('a \<Rightarrow> 'a \<Rightarrow> 'a \<Rightarrow> 'a \<Rightarrow> 'a \<times> 'a \<times> 'a \<times> 'a)
     \<Rightarrow> nat \<Rightarrow> 'a list \<Rightarrow> 'a list \<Rightarrow> nat \<Rightarrow> 'a list \<Rightarrow> 'a list \<Rightarrow> bool" where
  "pairInv act ptn F N re0 im0 k rk ik \<longleftrightarrow>
     length rk = N \<and> length ik = N
     \<and> (\<forall>i. i < N \<and> act i \<and> i < k \<longrightarrow>
           quad rk ik i (ptn i) = F (re0 ! i) (im0 ! i) (re0 ! ptn i) (im0 ! ptn i))
     \<and> (\<forall>i. i < N \<and> act i \<and> k \<le> i \<longrightarrow> quad rk ik i (ptn i) = quad re0 im0 i (ptn i))
     \<and> (\<forall>x. x < N \<and> \<not> act x \<and> (\<forall>i. i < N \<and> act i \<longrightarrow> ptn i \<noteq> x)
           \<longrightarrow> rk ! x = re0 ! x \<and> ik ! x = im0 ! x)"

definition sqOut :: "('a :: {plus, minus, times}) ComplexMatrix2 \<Rightarrow> 'a \<Rightarrow> 'a \<Rightarrow> 'a \<Rightarrow> 'a \<Rightarrow> 'a \<times> 'a \<times> 'a \<times> 'a" where
  "sqOut m aRe aIm bRe bIm =
     ((cre (m00 m) * aRe - cim (m00 m) * aIm) + (cre (m01 m) * bRe - cim (m01 m) * bIm),
      (cre (m00 m) * aIm + cim (m00 m) * aRe) + (cre (m01 m) * bIm + cim (m01 m) * bRe),
      (cre (m10 m) * aRe - cim (m10 m) * aIm) + (cre (m11 m) * bRe - cim (m11 m) * bIm),
      (cre (m10 m) * aIm + cim (m10 m) * aRe) + (cre (m11 m) * bIm + cim (m11 m) * bRe))"

text \<open>
  For the norm invariant: \<open>amp2\<close> is the squared modulus of one amplitude;
  \<open>unitary2\<close> says, on the real and imaginary parts of its entries, that the columns
  of a 2x2 matrix are orthonormal; \<open>swapOut\<close> is the exchange that CNOT and SWAP
  perform on a pair; \<open>czInv\<close> is the loop invariant of CZ; \<open>opValid\<close> is what
  step validation establishes for each operation of a step: indices in range and no
  index twice. \<open>bellCircuit\<close> is the Bell-pair circuit and \<open>bellState\<close> its result.
\<close>

definition amp2 :: "real list \<Rightarrow> real list \<Rightarrow> nat \<Rightarrow> real" where
  "amp2 rs js x = (rs ! x)\<^sup>2 + (js ! x)\<^sup>2"

definition unitary2 :: "real ComplexMatrix2 \<Rightarrow> bool" where
  "unitary2 m \<longleftrightarrow>
     (cre (m00 m))\<^sup>2 + (cim (m00 m))\<^sup>2 + ((cre (m10 m))\<^sup>2 + (cim (m10 m))\<^sup>2) = 1
   \<and> (cre (m01 m))\<^sup>2 + (cim (m01 m))\<^sup>2 + ((cre (m11 m))\<^sup>2 + (cim (m11 m))\<^sup>2) = 1
   \<and> cre (m00 m) * cre (m01 m) + cim (m00 m) * cim (m01 m)
       + (cre (m10 m) * cre (m11 m) + cim (m10 m) * cim (m11 m)) = 0
   \<and> cre (m00 m) * cim (m01 m) - cim (m00 m) * cre (m01 m)
       + (cre (m10 m) * cim (m11 m) - cim (m10 m) * cre (m11 m)) = 0"

definition swapOut :: "'a \<Rightarrow> 'a \<Rightarrow> 'a \<Rightarrow> 'a \<Rightarrow> 'a \<times> 'a \<times> 'a \<times> 'a" where
  "swapOut a b c d = (c, d, a, b)"

definition czInv :: "(nat \<Rightarrow> bool) \<Rightarrow> nat \<Rightarrow> real list \<Rightarrow> real list \<Rightarrow> nat \<Rightarrow> real list \<Rightarrow> real list \<Rightarrow> bool" where
  "czInv cond N re0 im0 k rk ik \<longleftrightarrow>
     length rk = N \<and> length ik = N
     \<and> (\<forall>x<N. rk ! x = (if x < k \<and> cond x then re0 ! x * (- 1) else re0 ! x)
             \<and> ik ! x = (if x < k \<and> cond x then im0 ! x * (- 1) else im0 ! x))"

definition opValid :: "int \<Rightarrow> 'a GateOp \<Rightarrow> bool" where
  "opValid n op \<longleftrightarrow> (\<forall>q \<in> set (touchedQubits op). 0 \<le> q \<and> q < n) \<and> distinct (touchedQubits op)"

definition bellCircuit :: "real Circuit" where
  "bellCircuit = \<lparr>circuitQubits = 2, steps = [[OpH 0], [OpCNOT 0 1]]\<rparr>"

definition bellState :: "real StateVector" where
  "bellState = \<lparr>nQubits = 2, re = [1 / sqrt 2, 0, 0, 1 / sqrt 2], im = [0, 0, 0, 0]\<rparr>"










section \<open>The generator against its reference\<close>

lemma bitlen_bounds: "2 ^ k \<le> n \<Longrightarrow> n < 2 ^ Suc k \<Longrightarrow> bitlen n = Suc k"
proof (induction k arbitrary: n)
  case 0
  then have "n = 1" by simp
  then show ?case by (simp add: bitlen.simps [of "Suc 0"] bitlen.simps [of 0])
next
  case (Suc k)
  then have "2 ^ k \<le> n div 2" "n div 2 < 2 ^ Suc k" by auto
  then have "bitlen (n div 2) = Suc k" by (rule Suc.IH)
  moreover from Suc.prems have "n \<noteq> 0" by auto
  ultimately show ?case by (subst bitlen.simps) simp
qed

lemma dblRound_exact: "x \<le> 2 ^ 53 \<Longrightarrow> dblRound x = x"
proof (cases "x < 2 ^ 53")
  case True
  then show ?thesis by (simp add: dblRound_def)
next
  case False
  assume "x \<le> 2 ^ 53"
  with False have x: "x = 2 ^ 53" by simp
  have "bitlen x = 54"
    using bitlen_bounds [of 53 x] x by simp
  with x show ?thesis by (simp add: dblRound_def Let_def)
qed

lemma dblRound_stuck: "dblRound (2 ^ 53 + 1) = 2 ^ 53"
proof -
  have "bitlen (2 ^ 53 + 1) = 54"
    using bitlen_bounds [of 53 "2 ^ 53 + 1"] by simp
  then show ?thesis by (simp add: dblRound_def Let_def)
qed

lemma rngStateAfter_exact:
  "t + k * 0x6d2b79f5 \<le> 2 ^ 53 \<Longrightarrow> rngStateAfter t k = t + k * 0x6d2b79f5"
proof (induction k)
  case 0
  show ?case by simp
next
  case (Suc k)
  then have "rngStateAfter t k = t + k * 0x6d2b79f5" by simp
  moreover from Suc.prems have "dblRound (t + k * 0x6d2b79f5 + 0x6d2b79f5) = t + k * 0x6d2b79f5 + 0x6d2b79f5"
    by (intro dblRound_exact) simp
  ultimately show ?case by (simp add: rng_def Let_def)
qed

lemma ref_stateAfter_closed: "ref_stateAfter s k = s + of_nat k * 0x6D2B79F5"
  by (induction k) (simp_all add: ref_next_def Let_def algebra_simps)

lemma rng_agrees_with_reference:
  assumes "unat (toUint32 seed) + k * 0x6d2b79f5 \<le> 2 ^ 53" and "1 \<le> k"
  shows "rngDraw seed k = ref_draw seed k"
proof -
  obtain j where k: "k = Suc j" using assms(2) by (cases k) auto
  let ?c = "0x6d2b79f5 :: nat"
  let ?t = "unat (toUint32 seed)"
  from assms(1) k have le: "?t + j * ?c + ?c \<le> 2 ^ 53" by simp
  then have st: "rngStateAfter ?t j = ?t + j * ?c"
    by (intro rngStateAfter_exact) simp
  from le have rd: "dblRound (?t + j * ?c + ?c) = ?t + j * ?c + ?c"
    by (rule dblRound_exact)
  have w: "(word_of_nat (?t + j * ?c + ?c) :: 32 word) = toUint32 seed + of_nat j * 0x6D2B79F5 + 0x6D2B79F5"
    by simp
  show ?thesis
    unfolding rngDraw_def ref_draw_def mulberry32_def k
    by (simp add: st rng_def ref_next_def Let_def rd w ref_stateAfter_closed
        or.commute del: of_nat_add of_nat_mult of_nat_numeral)
qed

lemma unitFloat_range: "\<exists>x. unitFloat u = Fin x \<and> 0 \<le> x \<and> x < 1"
proof -
  have "unat u < 4294967296" using unsigned_less [of u] by simp
  then have "real (unat u) < real (4294967296 :: nat)"
    by (simp only: of_nat_less_iff)
  then have "0 \<le> real (unat u) / 4294967296 \<and> real (unat u) / 4294967296 < 1"
    by (simp del: of_nat_unat)
  then show ?thesis
    unfolding unitFloat_def by blast
qed

text \<open>
  C3. The claim: for every seed and every draw index \<open>k \<ge> 1\<close>, the \<open>k\<close>-th value of
  the sampler's generator equals the Mulberry32 reference bit for bit, the state being
  advanced by \<open>0x6D2B79F5\<close> modulo \<open>2^32\<close>. The code never truncates its state:
  \<open>rng_agrees_with_reference\<close> shows that the two agree as long as
  \<open>seed + k * 0x6D2B79F5\<close> stays within \<open>2^53\<close>, and the theorem below evaluates
  both at seed 0, draw 4917759, the first draw whose state is not a double: the code
  returns the numerator 2430946484 where the reference returns 3767445004.
\<close>

theorem mulberry32_diverges_from_reference:
  "rngDraw (Fin 0) 4917759 = 2430946484 \<and> ref_draw (Fin 0) 4917759 = 3767445004"
proof -
  have st: "rngStateAfter 0 4917758 = 0 + 4917758 * 0x6d2b79f5"
    by (rule rngStateAfter_exact) simp
  have bl: "bitlen 9007199260973067 = 54"
    using bitlen_bounds [of 53 9007199260973067] by simp
  have rd: "dblRound 9007199260973067 = 9007199260973068"
    by (simp add: dblRound_def bl Let_def)
  have a: "rngDraw (Fin 0) 4917759 = 2430946484"
    by (simp add: rngDraw_def mulberry32_def toUint32_def st rng_def rd Let_def)
  have b: "ref_draw (Fin 0) 4917759 = 3767445004"
    by (simp add: ref_draw_def toUint32_def ref_stateAfter_closed ref_next_def Let_def)
  from a b show ?thesis by simp
qed

section \<open>Properties of the sampler\<close>

lemma shotsLoop_step:
  "s < n \<Longrightarrow> shotsLoop cdf tot n s t counts =
     shotsLoop cdf tot n (dblRound (s + 1)) (snd (rng t))
       (counts[drawIndex cdf tot t := counts ! drawIndex cdf tot t + 1])"
  by (subst shotsLoop.simps) simp

lemma shotsLoop_done: "\<not> s < n \<Longrightarrow> shotsLoop cdf tot n s t counts = Some counts"
  by (subst shotsLoop.simps) simp












lemma shotsLoop_never_returns:
  assumes "shotsLoop cdf tot n s t counts = Some c'"
  shows "\<not> (s \<le> 2 ^ 53 \<and> 2 ^ 53 < n)"
proof (rule shotsLoop.raw_induct
    [where P = "\<lambda>cdf tot n s t counts c'. \<not> (s \<le> 2 ^ 53 \<and> 2 ^ 53 < n)", OF _ assms])
  fix loop :: "jsnum list \<Rightarrow> jsnum \<Rightarrow> nat \<Rightarrow> nat \<Rightarrow> nat \<Rightarrow> 32 word list \<Rightarrow> 32 word list option"
  fix cdf tot and n s t :: nat and counts c' :: "32 word list"
  assume IH: "\<And>cdf tot n s t counts y. loop cdf tot n s t counts = Some y
                \<Longrightarrow> \<not> (s \<le> 2 ^ 53 \<and> 2 ^ 53 < n)"
    and eq: "(if s < n
              then loop cdf tot n (dblRound (s + 1)) (snd (rng t))
                     (counts[drawIndex cdf tot t := counts ! drawIndex cdf tot t + 1])
              else Some counts) = Some c'"
  show "\<not> (s \<le> 2 ^ 53 \<and> 2 ^ 53 < n)"
  proof
    assume a: "s \<le> 2 ^ 53 \<and> 2 ^ 53 < n"
    then have lt: "s < n" by simp
    have "dblRound (s + 1) \<le> 2 ^ 53"
    proof (cases "s = 2 ^ 53")
      case True
      then show ?thesis using dblRound_stuck by simp
    next
      case False
      with a have "s + 1 \<le> 2 ^ 53" by simp
      then show ?thesis by (simp add: dblRound_exact)
    qed
    moreover from eq lt have "loop cdf tot n (dblRound (s + 1)) (snd (rng t))
        (counts[drawIndex cdf tot t := counts ! drawIndex cdf tot t + 1]) = Some c'"
      by simp
    ultimately show False using IH a by blast
  qed
qed

lemma shotsLoop_None: "2 ^ 53 < n \<Longrightarrow> s \<le> 2 ^ 53 \<Longrightarrow> shotsLoop cdf tot n s t counts = None"
  using shotsLoop_never_returns [of cdf tot n s t counts] by (cases "shotsLoop cdf tot n s t counts") auto












subsection \<open>What a call reads from the store and what it leaves\<close>

lemma shotsLoop_st_step:
  "s < n \<Longrightarrow> shotsLoop_st cdf tot n s a counts st =
     shotsLoop_st cdf tot n (dblRound (s + 1)) a
       (counts[drawIndex cdf tot (st ! a) := counts ! drawIndex cdf tot (st ! a) + 1])
       (st[a := snd (rng (st ! a))])"
  by (subst shotsLoop_st.simps) (simp add: rng_call_def drawIndex_def Let_def case_prod_beta)

lemma shotsLoop_st_done: "\<not> s < n \<Longrightarrow> shotsLoop_st cdf tot n s a counts st = Some (counts, st)"
  by (subst shotsLoop_st.simps) simp

lemma shotsLoop_st_returns:
  assumes "n \<le> 2 ^ 53"
  shows "s \<le> n \<Longrightarrow> a < length st \<Longrightarrow> \<exists>t. shotsLoop_st cdf tot n s a counts st =
           map_option (\<lambda>c. (c, st[a := t])) (shotsLoop cdf tot n s (st ! a) counts)"
proof (induction "n - s" arbitrary: s counts st)
  case 0
  then have "\<not> s < n" by simp
  then have "shotsLoop_st cdf tot n s a counts st = Some (counts, st[a := st ! a])"
    "shotsLoop cdf tot n s (st ! a) counts = Some counts"
    by (simp_all add: shotsLoop_st_done shotsLoop_done)
  then show ?case by (intro exI [of _ "st ! a"]) simp
next
  case (Suc d)
  then have lt: "s < n" by simp
  with assms(1) have "s + 1 \<le> 2 ^ 53" by simp
  then have rd: "dblRound (s + 1) = s + 1" by (rule dblRound_exact)
  let ?i = "drawIndex cdf tot (st ! a)"
  let ?c = "counts[?i := counts ! ?i + 1]"
  let ?st = "st[a := snd (rng (st ! a))]"
  have d: "d = n - (s + 1)" using Suc.hyps(2) by simp
  have a': "a < length ?st" using Suc.prems(2) by simp
  have cell: "?st ! a = snd (rng (st ! a))" using Suc.prems(2) by simp
  from Suc.hyps(1) [OF d _ a', of ?c] lt
  obtain t where t: "shotsLoop_st cdf tot n (s + 1) a ?c ?st =
      map_option (\<lambda>c. (c, ?st[a := t])) (shotsLoop cdf tot n (s + 1) (?st ! a) ?c)"
    by auto
  have "shotsLoop_st cdf tot n s a counts st = shotsLoop_st cdf tot n (s + 1) a ?c ?st"
    using lt rd by (simp add: shotsLoop_st_step)
  moreover have "shotsLoop cdf tot n s (st ! a) counts = shotsLoop cdf tot n (s + 1) (?st ! a) ?c"
    using lt rd cell by (simp add: shotsLoop_step)
  ultimately show ?case using t by (intro exI [of _ t]) simp
qed

lemma shotsLoop_st_never_returns:
  assumes "shotsLoop_st cdf tot n s a counts st = Some r"
  shows "\<not> (s \<le> 2 ^ 53 \<and> 2 ^ 53 < n)"
proof (rule shotsLoop_st.raw_induct
    [where P = "\<lambda>cdf tot n s a counts st r. \<not> (s \<le> 2 ^ 53 \<and> 2 ^ 53 < n)", OF _ assms])
  fix loop :: "jsnum list \<Rightarrow> jsnum \<Rightarrow> nat \<Rightarrow> nat \<Rightarrow> nat \<Rightarrow> 32 word list \<Rightarrow> store \<Rightarrow> (32 word list \<times> store) option"
  fix cdf tot and n s a :: nat and counts :: "32 word list" and st :: store and r
  assume IH: "\<And>cdf tot n s a counts st y. loop cdf tot n s a counts st = Some y
                \<Longrightarrow> \<not> (s \<le> 2 ^ 53 \<and> 2 ^ 53 < n)"
    and eq: "(if s < n
              then (case rng_call a st of (u, st') \<Rightarrow>
                      (let lo = search (jmul (unitFloat u) tot) cdf 0 (length cdf - 1)
                       in loop cdf tot n (dblRound (s + 1)) a (counts[lo := counts ! lo + 1]) st'))
              else Some (counts, st)) = Some r"
  show "\<not> (s \<le> 2 ^ 53 \<and> 2 ^ 53 < n)"
  proof
    assume a: "s \<le> 2 ^ 53 \<and> 2 ^ 53 < n"
    then have lt: "s < n" by simp
    have "dblRound (s + 1) \<le> 2 ^ 53"
    proof (cases "s = 2 ^ 53")
      case True
      then show ?thesis using dblRound_stuck by simp
    next
      case False
      with a have "s + 1 \<le> 2 ^ 53" by simp
      then show ?thesis by (simp add: dblRound_exact)
    qed
    moreover from eq lt obtain c2 st2 where
      "loop cdf tot n (dblRound (s + 1)) a c2 st2 = Some r"
      by (simp add: Let_def case_prod_beta)
    ultimately show False using IH a by blast
  qed
qed

lemma shotsLoop_st_None: "2 ^ 53 < n \<Longrightarrow> s \<le> 2 ^ 53 \<Longrightarrow> shotsLoop_st cdf tot n s a counts st = None"
  using shotsLoop_st_never_returns [of cdf tot n s a counts st]
  by (cases "shotsLoop_st cdf tot n s a counts st") auto

lemma shotsLoop_st_counts:
  assumes "a < length st"
  shows "\<exists>t. shotsLoop_st cdf tot n 0 a counts st =
           map_option (\<lambda>c. (c, st[a := t])) (shotsLoop cdf tot n 0 (st ! a) counts)"
proof (cases "n \<le> 2 ^ 53")
  case True
  from shotsLoop_st_returns [OF True _ assms, of 0] show ?thesis by simp
next
  case False
  then have "shotsLoop_st cdf tot n 0 a counts st = None" "shotsLoop cdf tot n 0 (st ! a) counts = None"
    by (simp_all add: shotsLoop_st_None shotsLoop_None)
  then show ?thesis by simp
qed

text \<open>
  The counts of the run with the store are the counts of \<open>sampleAllQubits\<close>, whatever
  the store holds, the run that never returns included; and the cells that existed
  before the call are not written.
\<close>

lemma sampleAllQubits_st_counts:
  "\<exists>st'. sampleAllQubits_st p s k st = map_option (\<lambda>c. (c, st')) (sampleAllQubits p s k)
         \<and> take (length st) st' = st"
proof (cases "safeShotsOf s = 0 \<or> p = [] \<or> snd (buildCdf (Fin 0) p) = Fin 0")
  case True
  then have "sampleAllQubits_st p s k st = Some (replicate (length p) 0, st)"
    "sampleAllQubits p s k = Some (replicate (length p) 0)"
    by (auto simp: sampleAllQubits_st_def sampleAllQubits_def Let_def case_prod_beta)
  then show ?thesis by (intro exI [of _ st]) simp
next
  case False
  let ?cdf = "fst (buildCdf (Fin 0) p)"
  let ?tot = "snd (buildCdf (Fin 0) p)"
  let ?z = "replicate (length p) (0 :: 32 word)"
  let ?st = "st @ [mulberry32 k]"
  have a: "length st < length ?st" by simp
  from shotsLoop_st_counts [OF a, of ?cdf ?tot "safeShotsOf s" ?z]
  obtain t where t: "shotsLoop_st ?cdf ?tot (safeShotsOf s) 0 (length st) ?z ?st =
      map_option (\<lambda>c. (c, ?st[length st := t])) (shotsLoop ?cdf ?tot (safeShotsOf s) 0 (mulberry32 k) ?z)"
    by auto
  from False have 1: "sampleAllQubits_st p s k st = shotsLoop_st ?cdf ?tot (safeShotsOf s) 0 (length st) ?z ?st"
    by (simp add: sampleAllQubits_st_def Let_def case_prod_beta mulberry32_new_def mulberry32_def)
  from False have 2: "sampleAllQubits p s k = shotsLoop ?cdf ?tot (safeShotsOf s) 0 (mulberry32 k) ?z"
    by (simp add: sampleAllQubits_def Let_def case_prod_beta)
  show ?thesis
    by (intro exI [of _ "?st[length st := t]"]) (simp add: 1 2 t)
qed

text \<open>
  The result depends on the seed only through its 32-bit cast and on \<open>shots\<close> only
  through the coerced shot count.
\<close>

lemma sampleAllQubits_inputs:
  assumes "toUint32 k = toUint32 k'" and "safeShotsOf s = safeShotsOf s'"
  shows "sampleAllQubits p s k = sampleAllQubits p s' k'"
proof -
  from assms(1) have "mulberry32 k = mulberry32 k'"
    by (simp add: mulberry32_def)
  with assms(2) show ?thesis
    by (simp add: sampleAllQubits_def Let_def case_prod_beta)
qed

lemma sample_run_fair_st: "sampleAllQubits_st [Fin (1/2), Fin (1/2)] (Fin 5) (Fin 1337) [] = Some ([3, 2], [9157830402])"
  by (simp add: sampleAllQubits_st_def safeShotsOf_def isFinite_def jadd_def shotsLoop_st_step
      shotsLoop_st_done drawIndex_def Let_def mulberry32_new_def toUint32_def rng_def dblRound_def
      search.simps unitFloat_def jmul_def jle_def)


text \<open>
  C8. \<open>sampleAllQubits\<close> is deterministic: two evaluations on the same probability
  vector, shot count and seed return the same counts, entry by entry. The only state
  in play is the store. The counts of a call do not depend on the store the call
  starts in (first conjunct, for any two stores, so also for two processes); and a
  call leaves every cell that existed before it as it was, and a second evaluation,
  started in the store that the first one left, returns the counts of the first
  (second conjunct). A run that does not return does not return from any store.
\<close>

theorem sampleAllQubits_deterministic:
  "map_option fst (sampleAllQubits_st p s k st) = map_option fst (sampleAllQubits_st p s k st')
   \<and> (sampleAllQubits_st p s k st = Some (counts, st1) \<longrightarrow>
        take (length st) st1 = st
        \<and> map_option fst (sampleAllQubits_st p s k st1) = Some counts)"
proof -
  have fstc: "map_option fst (sampleAllQubits_st p s k x) = sampleAllQubits p s k" for x
  proof -
    from sampleAllQubits_st_counts [of p s k x] obtain y where
      "sampleAllQubits_st p s k x = map_option (\<lambda>c. (c, y)) (sampleAllQubits p s k)" by blast
    then show ?thesis by (simp add: option.map_comp comp_def option.map_ident)
  qed
  have 1: "map_option fst (sampleAllQubits_st p s k st) = map_option fst (sampleAllQubits_st p s k st')"
    by (simp add: fstc)
  have 2: "sampleAllQubits_st p s k st = Some (counts, st1) \<longrightarrow>
        take (length st) st1 = st \<and> map_option fst (sampleAllQubits_st p s k st1) = Some counts"
  proof
    assume r: "sampleAllQubits_st p s k st = Some (counts, st1)"
    from sampleAllQubits_st_counts [of p s k st] obtain y where
      y: "sampleAllQubits_st p s k st = map_option (\<lambda>c. (c, y)) (sampleAllQubits p s k)"
      "take (length st) y = st" by blast
    from r y(1) have "st1 = y" "sampleAllQubits p s k = Some counts" by auto
    with y(2) show "take (length st) st1 = st \<and> map_option fst (sampleAllQubits_st p s k st1) = Some counts"
      by (simp add: fstc)
  qed
  from 1 2 show ?thesis ..
qed

theorem sampleAllQubits_deterministic_witness:
  "sampleAllQubits_st [Fin (1/2), Fin (1/2)] (Fin 5) (Fin 1337) [] = Some ([3, 2], [9157830402])
   \<and> map_option fst (sampleAllQubits_st [Fin (1/2), Fin (1/2)] (Fin 5) (Fin 1337) [9157830402])
       = Some [3, 2]"
  using sampleAllQubits_deterministic
    [of "[Fin (1/2), Fin (1/2)]" "Fin 5" "Fin 1337" "[]" "[]" "[3, 2]" "[9157830402]"]
    sample_run_fair_st
  by simp


section \<open>Properties of the gate kernels\<close>

lemma pairInvI:
  assumes "length rk = N" "length ik = N"
    and "\<And>i. i < N \<Longrightarrow> act i \<Longrightarrow> i < k \<Longrightarrow>
           quad rk ik i (ptn i) = F (re0 ! i) (im0 ! i) (re0 ! ptn i) (im0 ! ptn i)"
    and "\<And>i. i < N \<Longrightarrow> act i \<Longrightarrow> k \<le> i \<Longrightarrow> quad rk ik i (ptn i) = quad re0 im0 i (ptn i)"
    and "\<And>x. x < N \<Longrightarrow> \<not> act x \<Longrightarrow> (\<forall>i. i < N \<and> act i \<longrightarrow> ptn i \<noteq> x)
           \<Longrightarrow> rk ! x = re0 ! x \<and> ik ! x = im0 ! x"
  shows "pairInv act ptn F N re0 im0 k rk ik"
  using assms by (simp add: pairInv_def)

lemma pairInvD:
  assumes "pairInv act ptn F N re0 im0 k rk ik"
  shows "length rk = N" and "length ik = N"
    and "\<And>i. i < N \<Longrightarrow> act i \<Longrightarrow> i < k \<Longrightarrow>
           quad rk ik i (ptn i) = F (re0 ! i) (im0 ! i) (re0 ! ptn i) (im0 ! ptn i)"
    and "\<And>i. i < N \<Longrightarrow> act i \<Longrightarrow> k \<le> i \<Longrightarrow> quad rk ik i (ptn i) = quad re0 im0 i (ptn i)"
    and "\<And>x. x < N \<Longrightarrow> \<not> act x \<Longrightarrow> (\<forall>i. i < N \<and> act i \<longrightarrow> ptn i \<noteq> x)
           \<Longrightarrow> rk ! x = re0 ! x \<and> ik ! x = im0 ! x"
  using assms by (simp_all add: pairInv_def)

lemma quad_update_other:
  "i \<noteq> a \<Longrightarrow> i \<noteq> b \<Longrightarrow> j \<noteq> a \<Longrightarrow> j \<noteq> b \<Longrightarrow>
     quad (rs[a := u, b := v]) (js[a := u', b := v']) i j = quad rs js i j"
  by (simp add: quad_def)

lemma quad_update_self:
  "a < length rs \<Longrightarrow> a < length js \<Longrightarrow> b < length rs \<Longrightarrow> b < length js \<Longrightarrow> a \<noteq> b \<Longrightarrow>
     quad (rs[a := u, b := v]) (js[a := u', b := v']) a b = (u, u', v, v')"
  by (simp add: quad_def)


lemma pairInv_step:
  assumes A: "\<And>i. i < N \<Longrightarrow> act i \<Longrightarrow> i < ptn i \<and> ptn i < N \<and> \<not> act (ptn i)"
    and inj: "\<And>i i'. i < N \<Longrightarrow> i' < N \<Longrightarrow> act i \<Longrightarrow> act i' \<Longrightarrow> ptn i = ptn i' \<Longrightarrow> i = i'"
    and k: "k < N"
    and inv: "pairInv act ptn F N re0 im0 k rk ik"
  shows "case pairStep act ptn F k (rk, ik) of (r', i') \<Rightarrow> pairInv act ptn F N re0 im0 (Suc k) r' i'"
proof (cases "act k")
  case False
  have same: "pairStep act ptn F k (rk, ik) = (rk, ik)"
    using False by (simp add: pairStep_def)
  note d = pairInvD [OF inv]
  have "pairInv act ptn F N re0 im0 (Suc k) rk ik"
  proof (rule pairInvI)
    show "length rk = N" "length ik = N" by (rule d)+
  next
    fix i assume i: "i < N" "act i" "i < Suc k"
    with False have "i < k" by (cases "i = k") auto
    with i show "quad rk ik i (ptn i) = F (re0 ! i) (im0 ! i) (re0 ! ptn i) (im0 ! ptn i)"
      by (intro d(3))
  next
    fix i assume i: "i < N" "act i" "Suc k \<le> i"
    then have "k \<le> i" by simp
    with i show "quad rk ik i (ptn i) = quad re0 im0 i (ptn i)" by (intro d(4))
  next
    fix x assume "x < N" "\<not> act x" "\<forall>i. i < N \<and> act i \<longrightarrow> ptn i \<noteq> x"
    then show "rk ! x = re0 ! x \<and> ik ! x = im0 ! x" by (rule d(5))
  qed
  then show ?thesis by (simp only: same prod.case)
next
  case True
  let ?j = "ptn k"
  note d = pairInvD [OF inv]
  from A [OF k True] have kj: "k < ?j" "?j < N" "\<not> act ?j" by simp_all
  have len: "length rk = N" "length ik = N" by (rule d)+
  have old: "quad rk ik k ?j = quad re0 im0 k ?j"
    using k True by (intro d(4)) simp_all
  then have old': "rk ! k = re0 ! k" "ik ! k = im0 ! k" "rk ! ?j = re0 ! ?j" "ik ! ?j = im0 ! ?j"
    by (simp_all add: quad_def)
  obtain r0 i0 r1 i1 where F: "F (re0 ! k) (im0 ! k) (re0 ! ?j) (im0 ! ?j) = (r0, i0, r1, i1)"
    by (cases "F (re0 ! k) (im0 ! k) (re0 ! ?j) (im0 ! ?j)") auto
  let ?r = "rk[k := r0, ?j := r1]" and ?i = "ik[k := i0, ?j := i1]"
  have step: "pairStep act ptn F k (rk, ik) = (?r, ?i)"
    by (simp add: pairStep_def True old' F)
  have self: "quad ?r ?i k ?j = F (re0 ! k) (im0 ! k) (re0 ! ?j) (im0 ! ?j)"
    unfolding F using k kj len by (intro quad_update_self) simp_all
  have other: "quad ?r ?i i (ptn i) = quad rk ik i (ptn i)" if "i < N" "act i" "i \<noteq> k" for i
  proof -
    from A [OF that(1,2)] have pi: "\<not> act (ptn i)" by simp
    have d1: "i \<noteq> ?j" using that(2) kj(3) by auto
    have d2: "ptn i \<noteq> k" using pi True by auto
    have d3: "ptn i \<noteq> ?j" using inj [OF that(1) k that(2) True] that(3) by auto
    from that(3) d1 d2 d3 show ?thesis by (rule quad_update_other)
  qed
  have "pairInv act ptn F N re0 im0 (Suc k) ?r ?i"
  proof (rule pairInvI)
    show "length ?r = N" "length ?i = N" using len by simp_all
  next
    fix i assume i: "i < N" "act i" "i < Suc k"
    show "quad ?r ?i i (ptn i) = F (re0 ! i) (im0 ! i) (re0 ! ptn i) (im0 ! ptn i)"
    proof (cases "i = k")
      case True
      then show ?thesis using self by simp
    next
      case False
      with i have "i < k" by simp
      from d(3) [OF i(1,2) this] other [OF i(1,2) False] show ?thesis by simp
    qed
  next
    fix i assume i: "i < N" "act i" "Suc k \<le> i"
    then have ne: "i \<noteq> k" and le: "k \<le> i" by simp_all
    from d(4) [OF i(1,2) le] other [OF i(1,2) ne]
    show "quad ?r ?i i (ptn i) = quad re0 im0 i (ptn i)" by simp
  next
    fix x assume x: "x < N" "\<not> act x" "\<forall>i. i < N \<and> act i \<longrightarrow> ptn i \<noteq> x"
    then have "x \<noteq> k" "x \<noteq> ?j" using True k by auto
    then have "?r ! x = rk ! x" "?i ! x = ik ! x" by simp_all
    with d(5) [OF x] show "?r ! x = re0 ! x \<and> ?i ! x = im0 ! x" by simp
  qed
  then show ?thesis by (simp only: step prod.case)
qed

lemma fold_upt_Suc: "fold f [0..<Suc k] s = f k (fold f [0..<k] s)"
  by simp

lemma pairInv_fold:
  assumes A: "\<And>i. i < N \<Longrightarrow> act i \<Longrightarrow> i < ptn i \<and> ptn i < N \<and> \<not> act (ptn i)"
    and inj: "\<And>i i'. i < N \<Longrightarrow> i' < N \<Longrightarrow> act i \<Longrightarrow> act i' \<Longrightarrow> ptn i = ptn i' \<Longrightarrow> i = i'"
    and len: "length re0 = N" "length im0 = N"
  shows "k \<le> N \<Longrightarrow>
     pairInv act ptn F N re0 im0 k (fst (fold (pairStep act ptn F) [0..<k] (re0, im0)))
       (snd (fold (pairStep act ptn F) [0..<k] (re0, im0)))"
proof (induction k)
  case 0
  have "fold (pairStep act ptn F) [0..<0] (re0, im0) = (re0, im0)" by simp
  moreover have "pairInv act ptn F N re0 im0 0 re0 im0"
    by (rule pairInvI) (simp_all add: len)
  ultimately show ?case by (simp only: fst_conv snd_conv)
next
  case (Suc k)
  let ?b = "fold (pairStep act ptn F) [0..<k] (re0, im0)"
  from Suc.prems have k: "k < N" and k': "k \<le> N" by simp_all
  have inv: "pairInv act ptn F N re0 im0 k (fst ?b) (snd ?b)"
    using k' by (rule Suc.IH)
  have b: "?b = (fst ?b, snd ?b)" by simp
  have "case pairStep act ptn F k (fst ?b, snd ?b) of
          (r', i') \<Rightarrow> pairInv act ptn F N re0 im0 (Suc k) r' i'"
    using A inj k inv by (rule pairInv_step)
  then have "pairInv act ptn F N re0 im0 (Suc k) (fst (pairStep act ptn F k ?b))
      (snd (pairStep act ptn F k ?b))"
    by (simp only: case_prod_beta prod.collapse)
  then show ?case by (simp only: fold_upt_Suc)
qed

lemma nat_and_pow: "(i::nat) AND 2 ^ p = 0 \<longleftrightarrow> \<not> bit i p"
  by (rule and_exp_eq_0_iff_not_bit)

lemma nat_or_pow: "(i::nat) OR 2 ^ p = set_bit p i"
  by (simp add: set_bit_eq_or)

lemma nat_xor_pow: "(i::nat) XOR 2 ^ p = flip_bit p i"
  by (simp add: flip_bit_eq_xor)

lemma set_bit_less: "(i::nat) < 2 ^ n \<Longrightarrow> p < n \<Longrightarrow> set_bit p i < 2 ^ n"
proof -
  assume a: "i < 2 ^ n" "p < n"
  then have "take_bit n i = i" by (simp add: take_bit_nat_eq_self_iff)
  with a(2) have "take_bit n (set_bit p i) = set_bit p i"
    by (simp add: take_bit_set_bit_eq)
  then show ?thesis by (simp only: take_bit_nat_eq_self_iff)
qed

lemma flip_bit_less: "(i::nat) < 2 ^ n \<Longrightarrow> p < n \<Longrightarrow> flip_bit p i < 2 ^ n"
proof -
  assume a: "i < 2 ^ n" "p < n"
  then have "take_bit n i = i" by (simp add: take_bit_nat_eq_self_iff)
  with a(2) have "take_bit n (flip_bit p i) = flip_bit p i"
    by (simp add: take_bit_flip_bit_eq)
  then show ?thesis by (simp only: take_bit_nat_eq_self_iff)
qed

lemma set_bit_add: "\<not> bit (i::nat) p \<Longrightarrow> set_bit p i = i + 2 ^ p"
  by (simp add: set_bit_eq)

lemma set_bit_greater: "\<not> bit (i::nat) p \<Longrightarrow> i < set_bit p i"
  by (simp add: set_bit_add)

lemma set_bit_inj: "\<not> bit (i::nat) p \<Longrightarrow> \<not> bit i' p \<Longrightarrow> set_bit p i = set_bit p i' \<Longrightarrow> i = i'"
  by (simp add: set_bit_add)

lemma bit_set_bit_nat: "bit (set_bit p (i::nat)) q \<longleftrightarrow> bit i q \<or> q = p"
  by (auto simp: bit_set_bit_iff)

lemma bit_flip_bit_nat: "bit (flip_bit p (i::nat)) q \<longleftrightarrow> (if q = p then \<not> bit i q else bit i q)"
  by (auto simp: bit_flip_bit_iff)

lemma flip_bit_twice: "flip_bit p (flip_bit p (i::nat)) = i"
  by (rule bit_eqI) (auto simp: bit_flip_bit_iff)

lemma unset_bit_props:
  "bit (i::nat) p \<Longrightarrow> \<not> bit (unset_bit p i) p \<and> set_bit p (unset_bit p i) = i \<and> unset_bit p i < i"
proof -
  assume b: "bit i p"
  have 1: "\<not> bit (unset_bit p i) p" by (simp add: bit_unset_bit_iff)
  have 2: "set_bit p (unset_bit p i) = i"
    by (rule bit_eqI) (use b in \<open>auto simp: bit_set_bit_iff bit_unset_bit_iff\<close>)
  from 1 have "unset_bit p i < set_bit p (unset_bit p i)" by (rule set_bit_greater)
  with 1 2 show ?thesis by simp
qed

lemma singleQubitStep_pair:
  "singleQubitStep m (2 ^ p) = pairStep (\<lambda>i. \<not> bit i p) (set_bit p) (sqOut m)"
proof (intro ext)
  fix i and bufs :: "'a list \<times> 'a list"
  obtain rs js where b: "bufs = (rs, js)" by (cases bufs)
  show "singleQubitStep m (2 ^ p) i bufs = pairStep (\<lambda>i. \<not> bit i p) (set_bit p) (sqOut m) i bufs"
    unfolding b by (simp add: singleQubitStep_def pairStep_def sqOut_def nat_and_pow nat_or_pow Let_def)
qed

lemma wf_mask:
  assumes "wf_state s" and "0 \<le> q" and "q < nQubits s"
  shows "maskForQubit (nQubits s) q = 2 ^ nat (nQubits s - 1 - q)"
    and "nat (nQubits s - 1 - q) < nat (nQubits s)"
    and "length (re s) = 2 ^ nat (nQubits s)" and "length (im s) = 2 ^ nat (nQubits s)"
    and "assertQubitIndex (nQubits s) q = None"
  using assms by (simp_all add: maskForQubit_def wf_state_def assertQubitIndex_def)

lemma set_bit_conditions:
  assumes "p < n"
  shows "\<And>i. i < (2::nat) ^ n \<Longrightarrow> \<not> bit i p \<Longrightarrow> i < set_bit p i \<and> set_bit p i < 2 ^ n \<and> \<not> \<not> bit (set_bit p i) p"
    and "\<And>i i'. i < (2::nat) ^ n \<Longrightarrow> i' < (2::nat) ^ n \<Longrightarrow> \<not> bit i p \<Longrightarrow> \<not> bit i' p
          \<Longrightarrow> set_bit p i = set_bit p i' \<Longrightarrow> i = i'"
  using assms by (simp_all add: set_bit_greater set_bit_less bit_set_bit_nat set_bit_inj)

lemma applySingleQubitMatrix_inv:
  assumes wf: "wf_state s" and q: "0 \<le> q" "q < nQubits s"
  shows "\<exists>r' i'. applySingleQubitMatrix s q m = (None, s\<lparr>re := r', im := i'\<rparr>)
           \<and> pairInv (\<lambda>i. \<not> bit i (nat (nQubits s - 1 - q))) (set_bit (nat (nQubits s - 1 - q)))
                (sqOut m) (length (re s)) (re s) (im s) (length (re s)) r' i'"
proof -
  let ?p = "nat (nQubits s - 1 - q)" and ?n = "nat (nQubits s)"
  note w = wf_mask [OF wf q]
  let ?b = "fold (pairStep (\<lambda>i. \<not> bit i ?p) (set_bit ?p) (sqOut m)) [0..<2 ^ ?n] (re s, im s)"
  have "pairInv (\<lambda>i. \<not> bit i ?p) (set_bit ?p) (sqOut m) (2 ^ ?n) (re s) (im s) (2 ^ ?n) (fst ?b) (snd ?b)"
    by (rule pairInv_fold [OF set_bit_conditions [OF w(2)] w(3) w(4)]) simp_all
  moreover have "applySingleQubitMatrix s q m = (None, s\<lparr>re := fst ?b, im := snd ?b\<rparr>)"
    by (simp add: applySingleQubitMatrix_def w Let_def singleQubitStep_pair)
  ultimately show ?thesis by (simp only: w(3)) blast
qed

text \<open>
  On real amplitudes the four right-hand sides are the complex products and sums
  \<open>m00 * a + m01 * b\<close> and \<open>m10 * a + m11 * b\<close>.
\<close>

lemma sqOut_complex:
  fixes m :: "real ComplexMatrix2"
  assumes "sqOut m aRe aIm bRe bIm = (r0, i0, r1, i1)"
  shows "Complex r0 i0 = Complex (cre (m00 m)) (cim (m00 m)) * Complex aRe aIm
                         + Complex (cre (m01 m)) (cim (m01 m)) * Complex bRe bIm"
    and "Complex r1 i1 = Complex (cre (m10 m)) (cim (m10 m)) * Complex aRe aIm
                         + Complex (cre (m11 m)) (cim (m11 m)) * Complex bRe bIm"
  using assms by (auto simp: sqOut_def complex_eq_iff)

lemma pair_partition:
  assumes "p < n" and "k < (2::nat) ^ n"
  shows "\<exists>!i. i < 2 ^ n \<and> i AND 2 ^ p = 0 \<and> (k = i \<or> k = i OR 2 ^ p)"
proof (cases "bit k p")
  case False
  show ?thesis
  proof (rule ex1I [of _ k])
    show "k < 2 ^ n \<and> k AND 2 ^ p = 0 \<and> (k = k \<or> k = k OR 2 ^ p)"
      using assms False by (simp add: nat_and_pow)
  next
    fix i assume i: "i < 2 ^ n \<and> i AND 2 ^ p = 0 \<and> (k = i \<or> k = i OR 2 ^ p)"
    then have "\<not> bit i p" by (simp add: nat_and_pow)
    moreover have "bit (set_bit p i) p" by (simp add: bit_set_bit_nat)
    ultimately show "i = k" using i False by (auto simp: nat_or_pow)
  qed
next
  case True
  note u = unset_bit_props [OF True]
  show ?thesis
  proof (rule ex1I [of _ "unset_bit p k"])
    from u assms(2) have "unset_bit p k < 2 ^ n" by simp
    with u show "unset_bit p k < 2 ^ n \<and> unset_bit p k AND 2 ^ p = 0
        \<and> (k = unset_bit p k \<or> k = unset_bit p k OR 2 ^ p)"
      by (simp add: nat_and_pow nat_or_pow)
  next
    fix i assume i: "i < 2 ^ n \<and> i AND 2 ^ p = 0 \<and> (k = i \<or> k = i OR 2 ^ p)"
    then have nb: "\<not> bit i p" by (simp add: nat_and_pow)
    with True i have "k = set_bit p i" by (auto simp: nat_or_pow)
    with u have "set_bit p i = set_bit p (unset_bit p k)" by simp
    with nb u show "i = unset_bit p k" by (intro set_bit_inj [of i p]) simp_all
  qed
qed

text \<open>
  C2. For every state with a valid target qubit and every 2x2 complex matrix, the
  single-qubit kernel returns normally and, with \<open>mask = 1 << (n-1-target)\<close>: for
  every index \<open>i\<close> with the target bit clear and \<open>j = i | mask\<close>, the new
  \<open>S[i]\<close> is \<open>m00*old(S[i]) + m01*old(S[j])\<close> and the new \<open>S[j]\<close> is
  \<open>m10*old(S[i]) + m11*old(S[j])\<close>, both from the values the two slots held before
  the call; every slot belongs to exactly one such pair, so each pair is rewritten once
  and no other slot exists; the qubit count and the buffer lengths are unchanged.
\<close>

theorem applySingleQubitMatrix_pairs:
  fixes s :: "('a :: {plus, minus, times}) StateVector"
  assumes "wf_state s" and "0 \<le> target" and "target < nQubits s"
  shows "\<exists>s'. applySingleQubitMatrix s target m = (None, s')
     \<and> nQubits s' = nQubits s \<and> length (re s') = length (re s) \<and> length (im s') = length (im s)
     \<and> (\<forall>i < length (re s). i AND maskForQubit (nQubits s) target = 0 \<longrightarrow>
          (let j = i OR maskForQubit (nQubits s) target;
               aRe = re s ! i; aIm = im s ! i; bRe = re s ! j; bIm = im s ! j
           in i < j \<and> j < length (re s)
            \<and> re s' ! i = (cre (m00 m) * aRe - cim (m00 m) * aIm) + (cre (m01 m) * bRe - cim (m01 m) * bIm)
            \<and> im s' ! i = (cre (m00 m) * aIm + cim (m00 m) * aRe) + (cre (m01 m) * bIm + cim (m01 m) * bRe)
            \<and> re s' ! j = (cre (m10 m) * aRe - cim (m10 m) * aIm) + (cre (m11 m) * bRe - cim (m11 m) * bIm)
            \<and> im s' ! j = (cre (m10 m) * aIm + cim (m10 m) * aRe) + (cre (m11 m) * bIm + cim (m11 m) * bRe)))
     \<and> (\<forall>k < length (re s). \<exists>!i. i < length (re s) \<and> i AND maskForQubit (nQubits s) target = 0
            \<and> (k = i \<or> k = i OR maskForQubit (nQubits s) target))"
proof -
  let ?p = "nat (nQubits s - 1 - target)" and ?n = "nat (nQubits s)"
  let ?N = "length (re s)"
  note w = wf_mask [OF assms]
  from applySingleQubitMatrix_inv [OF assms, of m]
  obtain r' i' where res: "applySingleQubitMatrix s target m = (None, s\<lparr>re := r', im := i'\<rparr>)"
    and inv: "pairInv (\<lambda>i. \<not> bit i ?p) (set_bit ?p) (sqOut m) ?N (re s) (im s) ?N r' i'"
    by blast
  note d = pairInvD [OF inv]
  let ?s' = "s\<lparr>re := r', im := i'\<rparr>"
  have pairs: "\<forall>i < ?N. i AND maskForQubit (nQubits s) target = 0 \<longrightarrow>
          (let j = i OR maskForQubit (nQubits s) target;
               aRe = re s ! i; aIm = im s ! i; bRe = re s ! j; bIm = im s ! j
           in i < j \<and> j < ?N
            \<and> re ?s' ! i = (cre (m00 m) * aRe - cim (m00 m) * aIm) + (cre (m01 m) * bRe - cim (m01 m) * bIm)
            \<and> im ?s' ! i = (cre (m00 m) * aIm + cim (m00 m) * aRe) + (cre (m01 m) * bIm + cim (m01 m) * bRe)
            \<and> re ?s' ! j = (cre (m10 m) * aRe - cim (m10 m) * aIm) + (cre (m11 m) * bRe - cim (m11 m) * bIm)
            \<and> im ?s' ! j = (cre (m10 m) * aIm + cim (m10 m) * aRe) + (cre (m11 m) * bIm + cim (m11 m) * bRe))"
  proof (intro allI impI)
    fix i assume i: "i < ?N" and c: "i AND maskForQubit (nQubits s) target = 0"
    from c have nb: "\<not> bit i ?p" by (simp add: w(1) nat_and_pow)
    have j: "i OR maskForQubit (nQubits s) target = set_bit ?p i"
      by (simp add: w(1) nat_or_pow)
    from i have i': "i < 2 ^ ?n" by (simp add: w(3))
    from set_bit_conditions(1) [OF w(2) i' nb] have b: "i < set_bit ?p i" "set_bit ?p i < ?N"
      by (simp_all add: w(3))
    from d(3) [OF i nb i]
    have "quad r' i' i (set_bit ?p i) = sqOut m (re s ! i) (im s ! i) (re s ! set_bit ?p i) (im s ! set_bit ?p i)" .
    then show "let j = i OR maskForQubit (nQubits s) target;
               aRe = re s ! i; aIm = im s ! i; bRe = re s ! j; bIm = im s ! j
           in i < j \<and> j < ?N
            \<and> re ?s' ! i = (cre (m00 m) * aRe - cim (m00 m) * aIm) + (cre (m01 m) * bRe - cim (m01 m) * bIm)
            \<and> im ?s' ! i = (cre (m00 m) * aIm + cim (m00 m) * aRe) + (cre (m01 m) * bIm + cim (m01 m) * bRe)
            \<and> re ?s' ! j = (cre (m10 m) * aRe - cim (m10 m) * aIm) + (cre (m11 m) * bRe - cim (m11 m) * bIm)
            \<and> im ?s' ! j = (cre (m10 m) * aIm + cim (m10 m) * aRe) + (cre (m11 m) * bIm + cim (m11 m) * bRe)"
      unfolding j Let_def using b by (simp add: quad_def sqOut_def)
  qed
  have part: "\<forall>k < ?N. \<exists>!i. i < ?N \<and> i AND maskForQubit (nQubits s) target = 0
            \<and> (k = i \<or> k = i OR maskForQubit (nQubits s) target)"
    unfolding w(1) w(3) using pair_partition [OF w(2)] by blast
  have "nQubits ?s' = nQubits s" "length (re ?s') = ?N" "length (im ?s') = length (im s)"
    using d(1,2) w(3,4) by simp_all
  with res pairs part show ?thesis by blast
qed

theorem applySingleQubitMatrix_pairs_witness:
  "wf_state ket0 \<and> (0::int) \<le> 0 \<and> 0 < nQubits ket0
   \<and> (\<exists>s'. applySingleQubitMatrix ket0 0
               \<lparr>m00 = cx 0 0, m01 = cx 1 0, m10 = cx 1 0, m11 = cx 0 0\<rparr> = (None, s')
            \<and> length (re s') = length (re ket0))
   \<and> applySingleQubitMatrix ket0 0 \<lparr>m00 = cx 0 0, m01 = cx 1 0, m10 = cx 1 0, m11 = cx 0 0\<rparr>
       = (None, \<lparr>nQubits = 1, re = [0, 1], im = [0, 0]\<rparr>)"
proof -
  have h1: "wf_state ket0"
    by (simp add: wf_state_def ket0_def MAX_SIM_QUBITS_def)
  have h2: "(0::int) \<le> 0" by simp
  have h3: "0 < nQubits ket0" by (simp add: ket0_def)
  have ev: "applySingleQubitMatrix ket0 0 \<lparr>m00 = cx 0 0, m01 = cx 1 0, m10 = cx 1 0, m11 = cx 0 0\<rparr>
       = (None, \<lparr>nQubits = 1, re = [0, 1], im = [0, 0]\<rparr>)"
    by (simp add: applySingleQubitMatrix_def assertQubitIndex_def ket0_def maskForQubit_def
        upt_rec [of 0] upt_rec [of 1] singleQubitStep_def cx_def Let_def numeral_2_eq_2)
  from applySingleQubitMatrix_pairs [OF h1 h2 h3,
      of "\<lparr>m00 = cx 0 0, m01 = cx 1 0, m10 = cx 1 0, m11 = cx 0 0\<rparr>"]
  have "\<exists>s'. applySingleQubitMatrix ket0 0
               \<lparr>m00 = cx 0 0, m01 = cx 1 0, m10 = cx 1 0, m11 = cx 0 0\<rparr> = (None, s')
            \<and> length (re s') = length (re ket0)"
    by blast
  with h1 h2 h3 ev show ?thesis by blast
qed

section \<open>Validation errors\<close>

lemma applySingleQubitMatrix_raise:
  "fst (applySingleQubitMatrix s q m) = Some e \<Longrightarrow> snd (applySingleQubitMatrix s q m) = s"
  by (simp add: applySingleQubitMatrix_def Let_def split: option.splits)

lemma applySingleQubitMatrix_invalid:
  "q < 0 \<or> nQubits s \<le> q \<Longrightarrow> applySingleQubitMatrix s q m = (Some InvalidQubitIndex, s)"
  by (auto simp: applySingleQubitMatrix_def assertQubitIndex_def)

lemma applyCNOT_raise: "fst (applyCNOT s c t) = Some e \<Longrightarrow> snd (applyCNOT s c t) = s"
  by (simp add: applyCNOT_def Let_def split: option.splits if_splits)

lemma applyCZ_raise: "fst (applyCZ s c t) = Some e \<Longrightarrow> snd (applyCZ s c t) = s"
  by (simp add: applyCZ_def Let_def split: option.splits if_splits)

lemma applySWAP_raise: "fst (applySWAP s a b) = Some e \<Longrightarrow> snd (applySWAP s a b) = s"
  by (simp add: applySWAP_def Let_def split: option.splits if_splits)

lemma applyCNOT_invalid:
  "c < 0 \<or> nQubits s \<le> c \<or> t < 0 \<or> nQubits s \<le> t \<Longrightarrow> applyCNOT s c t = (Some InvalidQubitIndex, s)"
  by (auto simp: applyCNOT_def assertQubitIndex_def)

lemma applyCNOT_same:
  "0 \<le> c \<Longrightarrow> c < nQubits s \<Longrightarrow> applyCNOT s c c = (Some InvalidGateArgs, s)"
  by (auto simp: applyCNOT_def assertQubitIndex_def)

lemma applyCZ_invalid:
  "c < 0 \<or> nQubits s \<le> c \<or> t < 0 \<or> nQubits s \<le> t \<Longrightarrow> applyCZ s c t = (Some InvalidQubitIndex, s)"
  by (auto simp: applyCZ_def assertQubitIndex_def)

lemma applyCZ_same:
  "0 \<le> c \<Longrightarrow> c < nQubits s \<Longrightarrow> applyCZ s c c = (Some InvalidGateArgs, s)"
  by (auto simp: applyCZ_def assertQubitIndex_def)

lemma applySWAP_invalid:
  "a < 0 \<or> nQubits s \<le> a \<or> b < 0 \<or> nQubits s \<le> b \<Longrightarrow> applySWAP s a b = (Some InvalidQubitIndex, s)"
  by (auto simp: applySWAP_def assertQubitIndex_def)

lemma applySWAP_same:
  "0 \<le> a \<Longrightarrow> a < nQubits s \<Longrightarrow> applySWAP s a a = (None, s)"
  by (auto simp: applySWAP_def assertQubitIndex_def)
lemma applyOp_raise: "fst (applyOp s op) = Some e \<Longrightarrow> snd (applyOp s op) = s"
  by (cases op)
     (simp_all add: applyH_def applyX_def applyY_def applyZ_def applyS_def applyT_def
        applyRX_def applyRY_def applyRZ_def Let_def applySingleQubitMatrix_raise
        applyCNOT_raise applyCZ_raise applySWAP_raise)

lemma applyOp_invalid:
  "\<not> isMeasure op \<Longrightarrow> \<exists>q \<in> set (touchedQubits op). q < 0 \<or> nQubits s \<le> q
     \<Longrightarrow> applyOp s op = (Some InvalidQubitIndex, s)"
  by (cases op)
     (auto simp: isMeasure_def applyH_def applyX_def applyY_def applyZ_def applyS_def applyT_def
        applyRX_def applyRY_def applyRZ_def Let_def applySingleQubitMatrix_invalid
        applyCNOT_invalid applyCZ_invalid applySWAP_invalid)

text \<open>
  C6. For every state and every invalid argument (a qubit index out of range for any
  gate kernel, or identical control and target for CNOT and CZ), the kernel raises,
  and whenever a kernel raises the state it leaves is the state it was given: every
  entry of both buffers is what it was before the call. The first two conjuncts are
  the four kernels on any amplitude type, the others the gates as the executor
  dispatches them.
\<close>

theorem gate_errors_atomic:
  fixes s :: "real StateVector" and s0 :: "('a :: {plus, minus, times, uminus, one}) StateVector"
  shows "(\<forall>e. (fst (applySingleQubitMatrix s0 q m) = Some e \<longrightarrow> snd (applySingleQubitMatrix s0 q m) = s0)
            \<and> (fst (applyCNOT s0 q q') = Some e \<longrightarrow> snd (applyCNOT s0 q q') = s0)
            \<and> (fst (applyCZ s0 q q') = Some e \<longrightarrow> snd (applyCZ s0 q q') = s0)
            \<and> (fst (applySWAP s0 q q') = Some e \<longrightarrow> snd (applySWAP s0 q q') = s0))
       \<and> (q < 0 \<or> nQubits s0 \<le> q \<longrightarrow>
             applySingleQubitMatrix s0 q m = (Some InvalidQubitIndex, s0)
           \<and> applyCNOT s0 q q' = (Some InvalidQubitIndex, s0)
           \<and> applyCNOT s0 q' q = (Some InvalidQubitIndex, s0)
           \<and> applyCZ s0 q q' = (Some InvalidQubitIndex, s0)
           \<and> applyCZ s0 q' q = (Some InvalidQubitIndex, s0)
           \<and> applySWAP s0 q q' = (Some InvalidQubitIndex, s0)
           \<and> applySWAP s0 q' q = (Some InvalidQubitIndex, s0))
       \<and> (\<forall>e. fst (applyOp s op) = Some e \<longrightarrow> snd (applyOp s op) = s)
       \<and> (\<not> isMeasure op \<and> (\<exists>q \<in> set (touchedQubits op). q < 0 \<or> nQubits s \<le> q)
            \<longrightarrow> applyOp s op = (Some InvalidQubitIndex, s))
       \<and> (0 \<le> c \<and> c < nQubits s
            \<longrightarrow> applyOp s (OpCNOT c c) = (Some InvalidGateArgs, s)
              \<and> applyOp s (OpCZ c c) = (Some InvalidGateArgs, s))"
proof -
  have 1: "\<forall>e. (fst (applySingleQubitMatrix s0 q m) = Some e \<longrightarrow> snd (applySingleQubitMatrix s0 q m) = s0)
            \<and> (fst (applyCNOT s0 q q') = Some e \<longrightarrow> snd (applyCNOT s0 q q') = s0)
            \<and> (fst (applyCZ s0 q q') = Some e \<longrightarrow> snd (applyCZ s0 q q') = s0)
            \<and> (fst (applySWAP s0 q q') = Some e \<longrightarrow> snd (applySWAP s0 q q') = s0)"
    using applySingleQubitMatrix_raise applyCNOT_raise applyCZ_raise applySWAP_raise by blast
  have 2: "q < 0 \<or> nQubits s0 \<le> q \<longrightarrow>
             applySingleQubitMatrix s0 q m = (Some InvalidQubitIndex, s0)
           \<and> applyCNOT s0 q q' = (Some InvalidQubitIndex, s0)
           \<and> applyCNOT s0 q' q = (Some InvalidQubitIndex, s0)
           \<and> applyCZ s0 q q' = (Some InvalidQubitIndex, s0)
           \<and> applyCZ s0 q' q = (Some InvalidQubitIndex, s0)
           \<and> applySWAP s0 q q' = (Some InvalidQubitIndex, s0)
           \<and> applySWAP s0 q' q = (Some InvalidQubitIndex, s0)"
    by (simp add: applySingleQubitMatrix_invalid applyCNOT_invalid applyCZ_invalid applySWAP_invalid)
  have 3: "\<forall>e. fst (applyOp s op) = Some e \<longrightarrow> snd (applyOp s op) = s"
    using applyOp_raise by blast
  have 4: "\<not> isMeasure op \<and> (\<exists>q \<in> set (touchedQubits op). q < 0 \<or> nQubits s \<le> q)
            \<longrightarrow> applyOp s op = (Some InvalidQubitIndex, s)"
    using applyOp_invalid by blast
  have 5: "0 \<le> c \<and> c < nQubits s
            \<longrightarrow> applyOp s (OpCNOT c c) = (Some InvalidGateArgs, s)
              \<and> applyOp s (OpCZ c c) = (Some InvalidGateArgs, s)"
    by (simp add: applyCNOT_same applyCZ_same)
  from 1 2 3 4 5 show ?thesis by (intro conjI)
qed

theorem gate_errors_atomic_witness:
  "\<not> isMeasure (OpH 5) \<and> (\<exists>q \<in> set (touchedQubits (OpH 5)). q < 0 \<or> nQubits ket0 \<le> q)
   \<and> applyOp ket0 (OpH 5) = (Some InvalidQubitIndex, ket0)
   \<and> (0::int) \<le> 0 \<and> 0 < nQubits ket0
   \<and> applyOp ket0 (OpCNOT 0 0) = (Some InvalidGateArgs, ket0)
   \<and> applyOp ket0 (OpCZ 0 0) = (Some InvalidGateArgs, ket0)
   \<and> ((5::int) < 0 \<or> nQubits ket0 \<le> 5)
   \<and> applySWAP ket0 5 0 = (Some InvalidQubitIndex, ket0)"
  using gate_errors_atomic
    [of ket0 5 "\<lparr>m00 = cx 0 0, m01 = cx 1 0, m10 = cx 1 0, m11 = cx 0 0\<rparr>" 0 ket0 "OpH 5" 0]
  by (simp add: isMeasure_def ket0_def)

lemma markQubits_twice:
  assumes "0 \<le> a" and "a < n"
  shows "markQubits n [a, a] (replicate (nat n) False) = Inl InvalidStep"
proof -
  from assms have "nat a < nat n" by simp
  then show ?thesis using assms by (simp add: assertQubitIndex_def)
qed

text \<open>
  C5. By the specification a step that holds the single operation \<open>SWAP(a, a)\<close> passes
  step validation, and the simulation of a circuit whose only step is \<open>[SWAP(a, a)]\<close>
  returns the zero state. The code does not do that. For every valid qubit count \<open>n\<close>
  and every qubit index \<open>a\<close> in \<open>[0, n)\<close>: the kernel \<open>applySWAP\<close> with \<open>a = b\<close>
  returns the state unchanged, as specified; but \<open>validateStep\<close> walks the list
  \<open>[a, b]\<close> that \<open>touchedQubits\<close> returns, finds \<open>a\<close> marked when it meets it the
  second time, and throws \<^verbatim>\<open>Invalid step: multiple ops touch q\<close> for a step that holds
  one operation; the simulation ends with that error and the kernel is never reached.
\<close>

theorem swap_same_qubit_step:
  assumes "1 \<le> n" and "n \<le> 20" and "0 \<le> a" and "a < n"
  shows "(\<forall>s :: real StateVector. nQubits s = n \<longrightarrow> applySWAP s a a = (None, s))
       \<and> validateStep n [OpSWAP a a :: real GateOp] = Some InvalidStep
       \<and> simulateCircuit \<lparr>circuitQubits = n, steps = [[OpSWAP a a]]\<rparr> = Inl InvalidStep"
proof -
  have v: "validateStep n [OpSWAP a a :: real GateOp] = Some InvalidStep"
    using markQubits_twice [OF assms(3,4)] by (simp add: validateStep_def)
  have c: "assertValidQubitCount n = None"
    using assms by (simp add: assertValidQubitCount_def MAX_SIM_QUBITS_def)
  have "simulateCircuit \<lparr>circuitQubits = n, steps = [[OpSWAP a a]]\<rparr> = Inl InvalidStep"
    by (simp add: simulateCircuit_def c zeroState_def v Let_def)
  with v show ?thesis using assms(3,4) by (simp add: applySWAP_same)
qed

theorem swap_same_qubit_step_witness:
  "(1::int) \<le> 3 \<and> (3::int) \<le> 20 \<and> (0::int) \<le> 1 \<and> (1::int) < 3
   \<and> validateStep 3 [OpSWAP 1 1 :: real GateOp] = Some InvalidStep
   \<and> simulateCircuit \<lparr>circuitQubits = 3, steps = [[OpSWAP 1 1]]\<rparr> = Inl InvalidStep"
  using swap_same_qubit_step [of 3 1] by simp

text \<open>
  The smallest case: one qubit, and the only step \<open>[SWAP(0, 0)]\<close>.
\<close>

lemma swap_same_qubit_rejected:
  "simulateCircuit \<lparr>circuitQubits = 1, steps = [[OpSWAP 0 0]]\<rparr> = Inl InvalidStep"
  by (simp add: simulateCircuit_def assertValidQubitCount_def MAX_SIM_QUBITS_def zeroState_def
      validateStep_def assertQubitIndex_def)

text \<open>The executor on JavaScript numbers validates the same way.\<close>

lemma swap_same_qubit_rejected_js:
  assumes "1 \<le> n" and "n \<le> 20" and "0 \<le> a" and "a < n"
  shows "simulateCircuit_js \<lparr>circuitQubits = n, steps = [[OpSWAP a a]]\<rparr> = Inl InvalidStep"
proof -
  have v: "validateStep n [OpSWAP a a :: jsnum GateOp] = Some InvalidStep"
    using markQubits_twice [OF assms(3,4)] by (simp add: validateStep_def)
  have c: "assertValidQubitCount n = None"
    using assms by (simp add: assertValidQubitCount_def MAX_SIM_QUBITS_def)
  show ?thesis
    by (simp add: simulateCircuit_js_def c zeroState_def v Let_def)
qed

section \<open>The norm invariant\<close>

lemma pairInv_norm:
  fixes re0 im0 r' i' :: "real list"
  assumes A: "\<And>i. i < N \<Longrightarrow> act i \<Longrightarrow> i < ptn i \<and> ptn i < N \<and> \<not> act (ptn i)"
    and inj: "\<And>i i'. i < N \<Longrightarrow> i' < N \<Longrightarrow> act i \<Longrightarrow> act i' \<Longrightarrow> ptn i = ptn i' \<Longrightarrow> i = i'"
    and inv: "pairInv act ptn F N re0 im0 N r' i'"
    and F: "\<And>a b c d r0 i0 r1 i1. F a b c d = (r0, i0, r1, i1)
              \<Longrightarrow> r0\<^sup>2 + i0\<^sup>2 + (r1\<^sup>2 + i1\<^sup>2) = a\<^sup>2 + b\<^sup>2 + (c\<^sup>2 + d\<^sup>2)"
  shows "(\<Sum>x<N. amp2 r' i' x) = (\<Sum>x<N. amp2 re0 im0 x)"
proof -
  note d = pairInvD [OF inv]
  let ?A = "{i. i < N \<and> act i}"
  let ?B = "ptn ` ?A"
  let ?U = "{..<N} - (?A \<union> ?B)"
  have fin: "finite ?A" "finite ?B" "finite ?U" by simp_all
  have disj: "?A \<inter> ?B = {}" using A by blast
  have sub: "?A \<union> ?B \<subseteq> {..<N}" using A by auto
  have injA: "inj_on ptn ?A" using inj by (auto simp: inj_on_def)
  have split: "\<And>g :: nat \<Rightarrow> real. sum g {..<N} = (\<Sum>i\<in>?A. g i + g (ptn i)) + sum g ?U"
  proof -
    fix g :: "nat \<Rightarrow> real"
    have "sum g {..<N} = sum g (?A \<union> ?B) + sum g ?U"
      using sub by (simp add: sum.subset_diff [of "?A \<union> ?B" "{..<N}" g])
    also have "sum g (?A \<union> ?B) = sum g ?A + sum g ?B"
      using fin disj by (intro sum.union_disjoint) simp_all
    also have "sum g ?B = (\<Sum>i\<in>?A. g (ptn i))"
      using injA by (simp add: sum.reindex)
    finally show "sum g {..<N} = (\<Sum>i\<in>?A. g i + g (ptn i)) + sum g ?U"
      by (simp add: sum.distrib)
  qed
  have pair: "amp2 r' i' i + amp2 r' i' (ptn i) = amp2 re0 im0 i + amp2 re0 im0 (ptn i)"
    if "i \<in> ?A" for i
  proof -
    from that have i: "i < N" "act i" by simp_all
    from d(3) [OF i i(1)]
    have "F (re0 ! i) (im0 ! i) (re0 ! ptn i) (im0 ! ptn i) = (r' ! i, i' ! i, r' ! ptn i, i' ! ptn i)"
      by (simp add: quad_def)
    from F [OF this] show ?thesis by (simp add: amp2_def)
  qed
  have rest: "amp2 r' i' x = amp2 re0 im0 x" if "x \<in> ?U" for x
  proof -
    from that have "x < N" "\<not> act x" "\<forall>i. i < N \<and> act i \<longrightarrow> ptn i \<noteq> x" by auto
    from d(5) [OF this] show ?thesis by (simp add: amp2_def)
  qed
  have "(\<Sum>x<N. amp2 r' i' x) = (\<Sum>i\<in>?A. amp2 r' i' i + amp2 r' i' (ptn i)) + sum (amp2 r' i') ?U"
    by (rule split)
  also have "(\<Sum>i\<in>?A. amp2 r' i' i + amp2 r' i' (ptn i)) = (\<Sum>i\<in>?A. amp2 re0 im0 i + amp2 re0 im0 (ptn i))"
    by (rule sum.cong [OF refl pair])
  also have "sum (amp2 r' i') ?U = sum (amp2 re0 im0) ?U"
    by (rule sum.cong [OF refl rest])
  also have "(\<Sum>i\<in>?A. amp2 re0 im0 i + amp2 re0 im0 (ptn i)) + sum (amp2 re0 im0) ?U = (\<Sum>x<N. amp2 re0 im0 x)"
    by (rule split [symmetric])
  finally show ?thesis .
qed

lemma sqOut_norm:
  assumes u: "unitary2 m" and o: "sqOut m a b c d = (r0, i0, r1, i1)"
  shows "r0\<^sup>2 + i0\<^sup>2 + (r1\<^sup>2 + i1\<^sup>2) = a\<^sup>2 + b\<^sup>2 + (c\<^sup>2 + d\<^sup>2)"
proof -
  let ?a00 = "cre (m00 m)" and ?b00 = "cim (m00 m)" and ?a01 = "cre (m01 m)" and ?b01 = "cim (m01 m)"
  let ?a10 = "cre (m10 m)" and ?b10 = "cim (m10 m)" and ?a11 = "cre (m11 m)" and ?b11 = "cim (m11 m)"
  let ?U1 = "?a00\<^sup>2 + ?b00\<^sup>2 + (?a10\<^sup>2 + ?b10\<^sup>2)"
  let ?U2 = "?a01\<^sup>2 + ?b01\<^sup>2 + (?a11\<^sup>2 + ?b11\<^sup>2)"
  let ?U3 = "?a00 * ?a01 + ?b00 * ?b01 + (?a10 * ?a11 + ?b10 * ?b11)"
  let ?U4 = "?a00 * ?b01 - ?b00 * ?a01 + (?a10 * ?b11 - ?b10 * ?a11)"
  from o have r: "r0 = (?a00 * a - ?b00 * b) + (?a01 * c - ?b01 * d)"
    "i0 = (?a00 * b + ?b00 * a) + (?a01 * d + ?b01 * c)"
    "r1 = (?a10 * a - ?b10 * b) + (?a11 * c - ?b11 * d)"
    "i1 = (?a10 * b + ?b10 * a) + (?a11 * d + ?b11 * c)"
    by (simp_all add: sqOut_def)
  have "r0\<^sup>2 + i0\<^sup>2 + (r1\<^sup>2 + i1\<^sup>2)
        = ?U1 * (a\<^sup>2 + b\<^sup>2) + ?U2 * (c\<^sup>2 + d\<^sup>2)
          + 2 * (?U3 * (a * c + b * d) - ?U4 * (a * d - b * c))"
    unfolding r by (simp add: power2_eq_square algebra_simps)
  also from u have "?U1 = 1" "?U2 = 1" "?U3 = 0" "?U4 = 0"
    by (simp_all add: unitary2_def)
  then have "?U1 * (a\<^sup>2 + b\<^sup>2) + ?U2 * (c\<^sup>2 + d\<^sup>2)
          + 2 * (?U3 * (a * c + b * d) - ?U4 * (a * d - b * c)) = a\<^sup>2 + b\<^sup>2 + (c\<^sup>2 + d\<^sup>2)"
    by (simp only: mult_1 mult_zero_left diff_zero mult_zero_right add_0_right)
  finally show ?thesis .
qed

lemma norm2_amp2: "norm2 s = (\<Sum>x<length (re s). amp2 (re s) (im s) x)"
  by (simp add: norm2_def amp2_def)

lemma applySingleQubitMatrix_norm:
  assumes wf: "wf_state s" and q: "0 \<le> q" "q < nQubits s" and u: "unitary2 m"
  shows "\<exists>s'. applySingleQubitMatrix s q m = (None, s') \<and> wf_state s'
           \<and> nQubits s' = nQubits s \<and> norm2 s' = norm2 s"
proof -
  let ?p = "nat (nQubits s - 1 - q)" and ?N = "length (re s)"
  note w = wf_mask [OF wf q]
  from applySingleQubitMatrix_inv [OF wf q, of m]
  obtain r' i' where res: "applySingleQubitMatrix s q m = (None, s\<lparr>re := r', im := i'\<rparr>)"
    and inv: "pairInv (\<lambda>i. \<not> bit i ?p) (set_bit ?p) (sqOut m) ?N (re s) (im s) ?N r' i'"
    by blast
  note d = pairInvD [OF inv]
  have c: "\<And>i. i < ?N \<Longrightarrow> \<not> bit i ?p \<Longrightarrow> i < set_bit ?p i \<and> set_bit ?p i < ?N \<and> \<not> \<not> bit (set_bit ?p i) ?p"
    "\<And>i i'. i < ?N \<Longrightarrow> i' < ?N \<Longrightarrow> \<not> bit i ?p \<Longrightarrow> \<not> bit i' ?p \<Longrightarrow> set_bit ?p i = set_bit ?p i' \<Longrightarrow> i = i'"
    using set_bit_conditions [OF w(2)] unfolding w(3) by blast+
  have "(\<Sum>x<?N. amp2 r' i' x) = (\<Sum>x<?N. amp2 (re s) (im s) x)"
    using c inv sqOut_norm [OF u] by (rule pairInv_norm)
  then have n: "norm2 (s\<lparr>re := r', im := i'\<rparr>) = norm2 s"
    using d(1) by (simp add: norm2_amp2)
  have "wf_state (s\<lparr>re := r', im := i'\<rparr>)"
    using wf d(1,2) by (simp add: wf_state_def)
  with res n show ?thesis by simp
qed

lemma cnotStep_pair:
  "cnotStep (2 ^ pc) (2 ^ pt) = pairStep (\<lambda>i. bit i pc \<and> \<not> bit i pt) (set_bit pt) swapOut"
proof (intro ext)
  fix i and bufs :: "'a list \<times> 'a list"
  obtain rs js where b: "bufs = (rs, js)" by (cases bufs)
  show "cnotStep (2 ^ pc) (2 ^ pt) i bufs = pairStep (\<lambda>i. bit i pc \<and> \<not> bit i pt) (set_bit pt) swapOut i bufs"
    unfolding b by (simp add: cnotStep_def pairStep_def swapOut_def nat_and_pow nat_or_pow Let_def)
qed

lemma swapOut_norm:
  fixes a b c d :: real
  shows "swapOut a b c d = (r0, i0, r1, i1) \<Longrightarrow> r0\<^sup>2 + i0\<^sup>2 + (r1\<^sup>2 + i1\<^sup>2) = a\<^sup>2 + b\<^sup>2 + (c\<^sup>2 + d\<^sup>2)"
  by (auto simp: swapOut_def)

lemma applyCNOT_norm:
  fixes s :: "real StateVector"
  assumes wf: "wf_state s" and c: "0 \<le> c" "c < nQubits s" and t: "0 \<le> t" "t < nQubits s"
    and ne: "c \<noteq> t"
  shows "\<exists>s'. applyCNOT s c t = (None, s') \<and> wf_state s' \<and> nQubits s' = nQubits s \<and> norm2 s' = norm2 s"
proof -
  let ?pc = "nat (nQubits s - 1 - c)" and ?pt = "nat (nQubits s - 1 - t)" and ?N = "length (re s)"
  let ?n = "nat (nQubits s)"
  let ?act = "\<lambda>i. bit i ?pc \<and> \<not> bit i ?pt"
  note wc = wf_mask [OF wf c] and wt = wf_mask [OF wf t]
  let ?b = "fold (pairStep ?act (set_bit ?pt) swapOut) [0..<2 ^ ?n] (re s, im s)"
  have A: "\<And>i. i < (2::nat) ^ ?n \<Longrightarrow> ?act i \<Longrightarrow> i < set_bit ?pt i \<and> set_bit ?pt i < 2 ^ ?n \<and> \<not> ?act (set_bit ?pt i)"
    using set_bit_conditions(1) [OF wt(2)] by blast
  have inj: "\<And>i i'. i < (2::nat) ^ ?n \<Longrightarrow> i' < (2::nat) ^ ?n \<Longrightarrow> ?act i \<Longrightarrow> ?act i' \<Longrightarrow> set_bit ?pt i = set_bit ?pt i' \<Longrightarrow> i = i'"
    using set_bit_conditions(2) [OF wt(2)] by blast
  have inv: "pairInv ?act (set_bit ?pt) swapOut (2 ^ ?n) (re s) (im s) (2 ^ ?n) (fst ?b) (snd ?b)"
    by (rule pairInv_fold [OF A inj wt(3) wt(4)]) simp_all
  note d = pairInvD [OF inv]
  have res: "applyCNOT s c t = (None, s\<lparr>re := fst ?b, im := snd ?b\<rparr>)"
    using ne by (simp add: applyCNOT_def wc wt Let_def cnotStep_pair)
  have "(\<Sum>x<2 ^ ?n. amp2 (fst ?b) (snd ?b) x) = (\<Sum>x<2 ^ ?n. amp2 (re s) (im s) x)"
    using A inj inv swapOut_norm by (rule pairInv_norm)
  then have n: "norm2 (s\<lparr>re := fst ?b, im := snd ?b\<rparr>) = norm2 s"
    using d(1) by (simp add: norm2_amp2 wt(3))
  have "wf_state (s\<lparr>re := fst ?b, im := snd ?b\<rparr>)"
    using wf d(1,2) by (simp add: wf_state_def)
  with res n show ?thesis by simp
qed

lemma nat_and_pow_pos: "0 < (i::nat) AND 2 ^ p \<longleftrightarrow> bit i p"
  using nat_and_pow [of i p] by auto

lemma swapStep_pair:
  "swapStep (2 ^ pa) (2 ^ pb) =
     pairStep (\<lambda>i. bit i pa \<noteq> bit i pb \<and> \<not> flip_bit pb (flip_bit pa i) < i)
       (\<lambda>i. flip_bit pb (flip_bit pa i)) swapOut"
proof (intro ext)
  fix i and bufs :: "'a list \<times> 'a list"
  obtain rs js where b: "bufs = (rs, js)" by (cases bufs)
  show "swapStep (2 ^ pa) (2 ^ pb) i bufs =
     pairStep (\<lambda>i. bit i pa \<noteq> bit i pb \<and> \<not> flip_bit pb (flip_bit pa i) < i)
       (\<lambda>i. flip_bit pb (flip_bit pa i)) swapOut i bufs"
    unfolding b
    by (simp add: swapStep_def pairStep_def swapOut_def nat_and_pow nat_and_pow_pos nat_xor_pow Let_def)
qed

lemma flip2_props:
  fixes i :: nat
  assumes ne: "pa \<noteq> pb"
  defines "f \<equiv> \<lambda>i::nat. flip_bit pb (flip_bit pa i)"
  shows "f (f i) = i" and "f i \<noteq> i" and "bit (f i) pa \<noteq> bit (f i) pb \<longleftrightarrow> bit i pa \<noteq> bit i pb"
proof -
  show "f (f i) = i"
    unfolding f_def by (rule bit_eqI) (auto simp: bit_flip_bit_iff)
  have "bit (f i) pa \<noteq> bit i pa"
    unfolding f_def using ne by (simp add: bit_flip_bit_iff)
  then show "f i \<noteq> i" by auto
  show "bit (f i) pa \<noteq> bit (f i) pb \<longleftrightarrow> bit i pa \<noteq> bit i pb"
    unfolding f_def using ne by (auto simp: bit_flip_bit_iff)
qed

lemma applySWAP_norm:
  fixes s :: "real StateVector"
  assumes wf: "wf_state s" and a: "0 \<le> a" "a < nQubits s" and b: "0 \<le> b" "b < nQubits s"
  shows "\<exists>s'. applySWAP s a b = (None, s') \<and> wf_state s' \<and> nQubits s' = nQubits s \<and> norm2 s' = norm2 s"
proof (cases "a = b")
  case True
  with wf a show ?thesis by (simp add: applySWAP_same)
next
  case False
  let ?pa = "nat (nQubits s - 1 - a)" and ?pb = "nat (nQubits s - 1 - b)" and ?n = "nat (nQubits s)"
  let ?f = "\<lambda>i::nat. flip_bit ?pb (flip_bit ?pa i)"
  let ?act = "\<lambda>i::nat. bit i ?pa \<noteq> bit i ?pb \<and> \<not> ?f i < i"
  note wa = wf_mask [OF wf a] and wb = wf_mask [OF wf b]
  from False a b have ne: "?pa \<noteq> ?pb" by simp
  note fp = flip2_props [OF ne]
  let ?b = "fold (pairStep ?act ?f swapOut) [0..<2 ^ ?n] (re s, im s)"
  have A: "i < ?f i \<and> ?f i < 2 ^ ?n \<and> \<not> ?act (?f i)" if "i < (2::nat) ^ ?n" "?act i" for i
  proof -
    from that(2) fp(2) [of i] have lt: "i < ?f i" by simp
    have "?f i < 2 ^ ?n" using that(1) wa(2) wb(2) by (intro flip_bit_less) simp_all
    moreover have "?f (?f i) < ?f i" using lt by (simp only: fp(1))
    ultimately show ?thesis using lt by blast
  qed
  have inj: "i = i'" if "?f i = ?f i'" for i i' :: nat
  proof -
    have "i = ?f (?f i)" by (simp only: fp(1))
    also have "\<dots> = ?f (?f i')" by (simp only: that)
    also have "\<dots> = i'" by (simp only: fp(1))
    finally show ?thesis .
  qed
  have inv: "pairInv ?act ?f swapOut (2 ^ ?n) (re s) (im s) (2 ^ ?n) (fst ?b) (snd ?b)"
    by (rule pairInv_fold [OF A inj wa(3) wa(4)]) simp_all
  note d = pairInvD [OF inv]
  have res: "applySWAP s a b = (None, s\<lparr>re := fst ?b, im := snd ?b\<rparr>)"
    using False by (simp add: applySWAP_def wa wb Let_def swapStep_pair)
  have "(\<Sum>x<2 ^ ?n. amp2 (fst ?b) (snd ?b) x) = (\<Sum>x<2 ^ ?n. amp2 (re s) (im s) x)"
    using A inj inv swapOut_norm by (rule pairInv_norm)
  then have n: "norm2 (s\<lparr>re := fst ?b, im := snd ?b\<rparr>) = norm2 s"
    using d(1) by (simp add: norm2_amp2 wa(3))
  have "wf_state (s\<lparr>re := fst ?b, im := snd ?b\<rparr>)"
    using wf d(1,2) by (simp add: wf_state_def)
  with res n show ?thesis by simp
qed

lemma czInv_fold:
  fixes re0 im0 :: "real list"
  assumes len: "length re0 = N" "length im0 = N"
  shows "k \<le> N \<Longrightarrow>
     czInv (\<lambda>i. bit i pc \<and> bit i pt) N re0 im0 k
       (fst (fold (czStep (2 ^ pc) (2 ^ pt)) [0..<k] (re0, im0)))
       (snd (fold (czStep (2 ^ pc) (2 ^ pt)) [0..<k] (re0, im0)))"
proof (induction k)
  case 0
  have "fold (czStep (2 ^ pc) (2 ^ pt)) [0..<0] (re0, im0) = (re0, im0)" by simp
  moreover have "czInv (\<lambda>i. bit i pc \<and> bit i pt) N re0 im0 0 re0 im0"
    by (simp add: czInv_def len)
  ultimately show ?case by (simp only: fst_conv snd_conv)
next
  case (Suc k)
  let ?b = "fold (czStep (2 ^ pc) (2 ^ pt)) [0..<k] (re0, im0)"
  let ?cond = "\<lambda>i. bit i pc \<and> bit i pt"
  from Suc.prems have k: "k < N" and k': "k \<le> N" by simp_all
  have inv: "czInv ?cond N re0 im0 k (fst ?b) (snd ?b)"
    using k' by (rule Suc.IH)
  obtain rk ik where b: "?b = (rk, ik)" by (cases ?b)
  from inv have len': "length rk = N" "length ik = N"
    and val: "\<And>x. x < N \<Longrightarrow> rk ! x = (if x < k \<and> ?cond x then re0 ! x * (- 1) else re0 ! x)
             \<and> ik ! x = (if x < k \<and> ?cond x then im0 ! x * (- 1) else im0 ! x)"
    by (simp_all add: czInv_def b)
  have step: "czStep (2 ^ pc) (2 ^ pt) k (rk, ik) =
      (if ?cond k then (rk[k := rk ! k * (- 1)], ik[k := ik ! k * (- 1)]) else (rk, ik))"
    by (simp add: czStep_def nat_and_pow)
  have "czInv ?cond N re0 im0 (Suc k) (fst (czStep (2 ^ pc) (2 ^ pt) k (rk, ik)))
      (snd (czStep (2 ^ pc) (2 ^ pt) k (rk, ik)))"
  proof (cases "?cond k")
    case True
    have "czInv ?cond N re0 im0 (Suc k) (rk[k := rk ! k * (- 1)]) (ik[k := ik ! k * (- 1)])"
      unfolding czInv_def
    proof (intro conjI allI impI)
      show "length (rk[k := rk ! k * (- 1)]) = N" "length (ik[k := ik ! k * (- 1)]) = N"
        using len' by simp_all
    next
      fix x assume x: "x < N"
      show "rk[k := rk ! k * (- 1)] ! x = (if x < Suc k \<and> ?cond x then re0 ! x * (- 1) else re0 ! x)"
        using val [OF x] val [OF k] True len' k by (cases "x = k") (auto simp: less_Suc_eq)
      show "ik[k := ik ! k * (- 1)] ! x = (if x < Suc k \<and> ?cond x then im0 ! x * (- 1) else im0 ! x)"
        using val [OF x] val [OF k] True len' k by (cases "x = k") (auto simp: less_Suc_eq)
    qed
    then show ?thesis by (simp only: step if_P [OF True] fst_conv snd_conv)
  next
    case False
    have "czInv ?cond N re0 im0 (Suc k) rk ik"
      unfolding czInv_def
    proof (intro conjI allI impI)
      show "length rk = N" "length ik = N" by (rule len')+
    next
      fix x assume x: "x < N"
      show "rk ! x = (if x < Suc k \<and> ?cond x then re0 ! x * (- 1) else re0 ! x)"
        using val [OF x] False by (cases "x = k") (auto simp: less_Suc_eq)
      show "ik ! x = (if x < Suc k \<and> ?cond x then im0 ! x * (- 1) else im0 ! x)"
        using val [OF x] False by (cases "x = k") (auto simp: less_Suc_eq)
    qed
    then show ?thesis by (simp only: step if_not_P [OF False] fst_conv snd_conv)
  qed
  then show ?case by (simp only: fold_upt_Suc b)
qed

lemma applyCZ_norm:
  fixes s :: "real StateVector"
  assumes wf: "wf_state s" and c: "0 \<le> c" "c < nQubits s" and t: "0 \<le> t" "t < nQubits s"
    and ne: "c \<noteq> t"
  shows "\<exists>s'. applyCZ s c t = (None, s') \<and> wf_state s' \<and> nQubits s' = nQubits s \<and> norm2 s' = norm2 s"
proof -
  let ?pc = "nat (nQubits s - 1 - c)" and ?pt = "nat (nQubits s - 1 - t)" and ?n = "nat (nQubits s)"
  note wc = wf_mask [OF wf c] and wt = wf_mask [OF wf t]
  let ?b = "fold (czStep (2 ^ ?pc) (2 ^ ?pt)) [0..<2 ^ ?n] (re s, im s)"
  have inv: "czInv (\<lambda>i. bit i ?pc \<and> bit i ?pt) (2 ^ ?n) (re s) (im s) (2 ^ ?n) (fst ?b) (snd ?b)"
    by (rule czInv_fold [OF wc(3) wc(4)]) simp
  then have len: "length (fst ?b) = 2 ^ ?n" "length (snd ?b) = 2 ^ ?n"
    and val: "\<And>x. x < 2 ^ ?n \<Longrightarrow> amp2 (fst ?b) (snd ?b) x = amp2 (re s) (im s) x"
    by (simp_all add: czInv_def amp2_def)
  have res: "applyCZ s c t = (None, s\<lparr>re := fst ?b, im := snd ?b\<rparr>)"
    using ne by (simp add: applyCZ_def wc wt Let_def)
  have "(\<Sum>x<2 ^ ?n. amp2 (fst ?b) (snd ?b) x) = (\<Sum>x<2 ^ ?n. amp2 (re s) (im s) x)"
    by (rule sum.cong [OF refl]) (simp add: val)
  then have n: "norm2 (s\<lparr>re := fst ?b, im := snd ?b\<rparr>) = norm2 s"
    using len by (simp add: norm2_amp2 wc(3))
  have "wf_state (s\<lparr>re := fst ?b, im := snd ?b\<rparr>)"
    using wf len by (simp add: wf_state_def)
  with res n show ?thesis by simp
qed

lemma sqrt2_sq: "(1 / sqrt 2)\<^sup>2 = (1/2 :: real)" "(sqrt (1 / 2))\<^sup>2 = (1/2 :: real)"
  by (simp_all add: power_divide)

lemma unitary2_H: "unitary2 \<lparr>m00 = cx (1 / sqrt 2) 0, m01 = cx (1 / sqrt 2) 0, m10 = cx (1 / sqrt 2) 0, m11 = cx (- (1 / sqrt 2)) 0\<rparr>"
  by (simp add: unitary2_def cx_def sqrt2_sq)

lemma unitary2_X: "unitary2 \<lparr>m00 = cx 0 0, m01 = cx 1 0, m10 = cx 1 0, m11 = cx 0 0\<rparr>"
  by (simp add: unitary2_def cx_def)

lemma unitary2_Y: "unitary2 \<lparr>m00 = cx 0 0, m01 = cx 0 (- 1), m10 = cx 0 1, m11 = cx 0 0\<rparr>"
  by (simp add: unitary2_def cx_def)

lemma unitary2_Z: "unitary2 \<lparr>m00 = cx 1 0, m01 = cx 0 0, m10 = cx 0 0, m11 = cx (- 1) 0\<rparr>"
  by (simp add: unitary2_def cx_def)

lemma unitary2_S: "unitary2 \<lparr>m00 = cx 1 0, m01 = cx 0 0, m10 = cx 0 0, m11 = cx 0 1\<rparr>"
  by (simp add: unitary2_def cx_def)

lemma unitary2_T: "unitary2 \<lparr>m00 = cx 1 0, m01 = cx 0 0, m10 = cx 0 0, m11 = cx (sqrt (1 / 2)) (sqrt (1 / 2))\<rparr>"
  by (simp add: unitary2_def cx_def sqrt2_sq)

lemma unitary2_RX: "unitary2 \<lparr>m00 = cx (cos t) 0, m01 = cx 0 (- sin t), m10 = cx 0 (- sin t), m11 = cx (cos t) 0\<rparr>"
  by (simp add: unitary2_def cx_def)

lemma unitary2_RY: "unitary2 \<lparr>m00 = cx (cos t) 0, m01 = cx (- sin t) 0, m10 = cx (sin t) 0, m11 = cx (cos t) 0\<rparr>"
  by (simp add: unitary2_def cx_def)

lemma unitary2_RZ: "unitary2 \<lparr>m00 = cx (cos t) (- sin t), m01 = cx 0 0, m10 = cx 0 0, m11 = cx (cos t) (sin t)\<rparr>"
  by (simp add: unitary2_def cx_def)

lemma applyOp_valid:
  assumes wf: "wf_state s" and v: "opValid (nQubits s) op"
  shows "\<exists>s'. applyOp s op = (None, s') \<and> wf_state s' \<and> nQubits s' = nQubits s \<and> norm2 s' = norm2 s"
proof (cases op)
  case (OpH t)
  with v have "0 \<le> t" "t < nQubits s" by (simp_all add: opValid_def)
  from applySingleQubitMatrix_norm [OF wf this unitary2_H] OpH show ?thesis
    by (simp add: applyH_def Let_def)
next
  case (OpX t)
  with v have "0 \<le> t" "t < nQubits s" by (simp_all add: opValid_def)
  from applySingleQubitMatrix_norm [OF wf this unitary2_X] OpX show ?thesis
    by (simp add: applyX_def)
next
  case (OpY t)
  with v have "0 \<le> t" "t < nQubits s" by (simp_all add: opValid_def)
  from applySingleQubitMatrix_norm [OF wf this unitary2_Y] OpY show ?thesis
    by (simp add: applyY_def)
next
  case (OpZ t)
  with v have "0 \<le> t" "t < nQubits s" by (simp_all add: opValid_def)
  from applySingleQubitMatrix_norm [OF wf this unitary2_Z] OpZ show ?thesis
    by (simp add: applyZ_def)
next
  case (OpS t)
  with v have "0 \<le> t" "t < nQubits s" by (simp_all add: opValid_def)
  from applySingleQubitMatrix_norm [OF wf this unitary2_S] OpS show ?thesis
    by (simp add: applyS_def)
next
  case (OpT t)
  with v have "0 \<le> t" "t < nQubits s" by (simp_all add: opValid_def)
  from applySingleQubitMatrix_norm [OF wf this unitary2_T] OpT show ?thesis
    by (simp add: applyT_def Let_def)
next
  case (OpRX t theta)
  with v have "0 \<le> t" "t < nQubits s" by (simp_all add: opValid_def)
  from applySingleQubitMatrix_norm [OF wf this unitary2_RX [of "theta / 2"]] OpRX show ?thesis
    by (simp add: applyRX_def Let_def)
next
  case (OpRY t theta)
  with v have "0 \<le> t" "t < nQubits s" by (simp_all add: opValid_def)
  from applySingleQubitMatrix_norm [OF wf this unitary2_RY [of "theta / 2"]] OpRY show ?thesis
    by (simp add: applyRY_def Let_def)
next
  case (OpRZ t theta)
  with v have "0 \<le> t" "t < nQubits s" by (simp_all add: opValid_def)
  from applySingleQubitMatrix_norm [OF wf this unitary2_RZ [of "theta / 2"]] OpRZ show ?thesis
    by (simp add: applyRZ_def Let_def)
next
  case (OpCNOT c t)
  with v have "0 \<le> c" "c < nQubits s" "0 \<le> t" "t < nQubits s" "c \<noteq> t"
    by (simp_all add: opValid_def)
  from applyCNOT_norm [OF wf this] OpCNOT show ?thesis by simp
next
  case (OpCZ c t)
  with v have "0 \<le> c" "c < nQubits s" "0 \<le> t" "t < nQubits s" "c \<noteq> t"
    by (simp_all add: opValid_def)
  from applyCZ_norm [OF wf this] OpCZ show ?thesis by simp
next
  case (OpSWAP a b)
  with v have "0 \<le> a" "a < nQubits s" "0 \<le> b" "b < nQubits s"
    by (simp_all add: opValid_def)
  from applySWAP_norm [OF wf this] OpSWAP show ?thesis by simp
next
  case (OpMEASURE t)
  with wf show ?thesis by simp
qed

lemma applyOps_valid:
  "wf_state s \<Longrightarrow> \<forall>op \<in> set ops. opValid (nQubits s) op \<Longrightarrow>
     \<exists>s'. applyOps s ops = (None, s') \<and> wf_state s' \<and> nQubits s' = nQubits s \<and> norm2 s' = norm2 s"
proof (induction ops arbitrary: s)
  case Nil
  then show ?case by simp
next
  case (Cons op ops)
  from Cons.prems have "opValid (nQubits s) op" by simp
  from applyOp_valid [OF Cons.prems(1) this]
  obtain s1 where s1: "applyOp s op = (None, s1)" "wf_state s1" "nQubits s1 = nQubits s" "norm2 s1 = norm2 s"
    by blast
  from Cons.prems s1 have "\<forall>op \<in> set ops. opValid (nQubits s1) op" by simp
  from Cons.IH [OF s1(2) this]
  obtain s2 where s2: "applyOps s1 ops = (None, s2)" "wf_state s2" "nQubits s2 = nQubits s1" "norm2 s2 = norm2 s1"
    by blast
  from s1 s2 show ?case by simp
qed

lemma markQubits_ok:
  "markQubits n qs touched = Inr touched' \<Longrightarrow> length touched = nat n \<Longrightarrow>
     length touched' = nat n \<and> (\<forall>q \<in> set qs. 0 \<le> q \<and> q < n \<and> \<not> touched ! nat q) \<and> distinct qs"
proof (induction qs arbitrary: touched)
  case Nil
  then show ?case by simp
next
  case (Cons q qs)
  from Cons.prems(1) have q: "0 \<le> q" "q < n" "\<not> touched ! nat q"
    and rest: "markQubits n qs (touched[nat q := True]) = Inr touched'"
    by (auto simp: assertQubitIndex_def split: if_splits)
  from q Cons.prems(2) have lt: "nat q < length touched" by simp
  from Cons.IH [OF rest] Cons.prems(2)
  have ih: "length touched' = nat n"
    "\<forall>q' \<in> set qs. 0 \<le> q' \<and> q' < n \<and> \<not> touched[nat q := True] ! nat q'" "distinct qs"
    by simp_all
  have "q \<notin> set qs"
  proof
    assume "q \<in> set qs"
    with ih(2) have "\<not> touched[nat q := True] ! nat q" by blast
    with lt show False by simp
  qed
  moreover have "\<not> touched ! nat q'" if "q' \<in> set qs" for q'
  proof -
    from that ih(2) have a: "0 \<le> q'" "\<not> touched[nat q := True] ! nat q'" by blast+
    from that \<open>q \<notin> set qs\<close> have "q' \<noteq> q" by auto
    with a(1) q(1) have "nat q' \<noteq> nat q" by simp
    with a(2) show ?thesis by simp
  qed
  ultimately show ?case using q ih by auto
qed

lemma validateOps_ok:
  "validateOps n ops touched = Inr touched' \<Longrightarrow> length touched = nat n \<Longrightarrow>
     \<forall>op \<in> set ops. opValid n op"
proof (induction ops arbitrary: touched)
  case Nil
  then show ?case by simp
next
  case (Cons op ops)
  from Cons.prems(1) obtain t1 where t1: "markQubits n (touchedQubits op) touched = Inr t1"
    and rest: "validateOps n ops t1 = Inr touched'"
    by (auto split: sum.splits)
  from markQubits_ok [OF t1 Cons.prems(2)] have len: "length t1 = nat n" and v: "opValid n op"
    by (auto simp: opValid_def)
  from Cons.IH [OF rest len] v show ?case by simp
qed

lemma validateStep_ok: "validateStep n step = None \<Longrightarrow> \<forall>op \<in> set step. opValid n op"
proof -
  assume "validateStep n step = None"
  then obtain t where "validateOps n step (replicate (nat n) False) = Inr t"
    by (auto simp: validateStep_def split: sum.splits)
  then show ?thesis by (rule validateOps_ok) simp
qed

lemma runSteps_valid:
  "wf_state s \<Longrightarrow> nQubits s = n \<Longrightarrow> \<forall>step \<in> set sts. validateStep n step = None \<Longrightarrow>
     \<exists>s'. runSteps n sts s = Inr s' \<and> wf_state s' \<and> nQubits s' = n \<and> norm2 s' = norm2 s"
proof (induction sts arbitrary: s)
  case Nil
  then show ?case by simp
next
  case (Cons step sts)
  from Cons.prems have v: "validateStep n step = None" by simp
  from validateStep_ok [OF v] Cons.prems(2) have "\<forall>op \<in> set step. opValid (nQubits s) op" by simp
  from applyOps_valid [OF Cons.prems(1) this]
  obtain s1 where s1: "applyOps s step = (None, s1)" "wf_state s1" "nQubits s1 = nQubits s" "norm2 s1 = norm2 s"
    by blast
  from Cons.prems have "\<forall>step \<in> set sts. validateStep n step = None" by simp
  from Cons.IH [OF s1(2) _ this] s1(3) Cons.prems(2)
  obtain s2 where s2: "runSteps n sts s1 = Inr s2" "wf_state s2" "nQubits s2 = n" "norm2 s2 = norm2 s1"
    by auto
  from v s1 s2 show ?case by simp
qed

lemma zeroState_norm:
  assumes "assertValidQubitCount n = None"
  shows "\<exists>s :: real StateVector. zeroState n = Inr s \<and> wf_state s \<and> nQubits s = n \<and> norm2 s = 1"
proof -
  let ?N = "(2::nat) ^ nat n"
  let ?s = "\<lparr>nQubits = n, re = (replicate ?N (0::real))[0 := 1], im = replicate ?N (0::real)\<rparr>"
  from assms have n: "1 \<le> n" "n \<le> MAX_SIM_QUBITS"
    by (simp_all add: assertValidQubitCount_def split: if_splits)
  have z: "zeroState n = Inr ?s"
    using assms by (simp add: zeroState_def Let_def)
  have wf: "wf_state ?s" using n by (simp add: wf_state_def)
  have "norm2 ?s = (\<Sum>k<?N. if k = 0 then 1 else 0)"
    unfolding norm2_def by (rule sum.cong) (auto simp: nth_list_update)
  also have "\<dots> = 1" by (simp add: sum.delta)
  finally have "norm2 ?s = 1" .
  with z wf show ?thesis by simp
qed

text \<open>
  In exact arithmetic every gate is unitary, and the executor on real numbers keeps the
  norm of the state at exactly 1 for every circuit that passes validation. This is the
  mathematical fact behind the invariant; it says nothing of the rounding of the
  doubles, which the section on JavaScript numbers below takes up.
\<close>

lemma simulateCircuit_norm_exact:
  assumes "assertValidQubitCount (circuitQubits c) = None"
    and "\<forall>step \<in> set (steps c). validateStep (circuitQubits c) step = None"
  shows "\<exists>s. simulateCircuit c = Inr s
           \<and> nQubits s = circuitQubits c
           \<and> length (re s) = 2 ^ nat (circuitQubits c) \<and> length (im s) = 2 ^ nat (circuitQubits c)
           \<and> norm2 s = 1 \<and> \<bar>norm2 s - 1\<bar> \<le> 1 / 10 ^ 9"
proof -
  from zeroState_norm [OF assms(1)]
  obtain s0 :: "real StateVector" where s0: "zeroState (circuitQubits c) = Inr s0" "wf_state s0"
    "nQubits s0 = circuitQubits c" "norm2 s0 = 1"
    by blast
  from runSteps_valid [OF s0(2,3) assms(2)]
  obtain s where s: "runSteps (circuitQubits c) (steps c) s0 = Inr s" "wf_state s"
    "nQubits s = circuitQubits c" "norm2 s = norm2 s0"
    by blast
  have "simulateCircuit c = Inr s"
    by (simp add: simulateCircuit_def assms(1) s0(1) s(1))
  with s s0(4) show ?thesis by (simp add: wf_state_def)
qed

lemma upt_0_4: "[0..<4] = [0, 1, 2, 3]"
  by code_simp

lemma list_update_Cons_numeral: "(x # xs)[numeral v := y] = x # xs[pred_numeral v := y]"
  by (simp add: numeral_eq_Suc)

lemma bits_numerals:
  "(0::nat) AND 2 = 0" "(1::nat) AND 2 = 0" "(2::nat) AND 2 = 2" "(3::nat) AND 2 = 2"
  "(0::nat) OR 2 = 2" "(1::nat) OR 2 = 3"
  "(0::nat) AND 1 = 0" "(1::nat) AND 1 = 1" "(2::nat) AND 1 = 0" "(3::nat) AND 1 = 1"
  "(0::nat) OR 1 = 1" "(2::nat) OR 1 = 3"
  by simp_all

lemma bits_two_qubits:
  "(0::nat) AND 2 = 0" "Suc 0 AND 2 = 0" "Suc (Suc 0) AND 2 = 2" "Suc (Suc (Suc 0)) AND 2 = 2"
  "(0::nat) OR 2 = Suc (Suc 0)" "Suc 0 OR 2 = Suc (Suc (Suc 0))"
  "(0::nat) AND Suc 0 = 0" "Suc 0 AND Suc 0 = Suc 0" "Suc (Suc 0) AND Suc 0 = 0"
  "Suc (Suc (Suc 0)) AND Suc 0 = Suc 0"
  "(0::nat) OR Suc 0 = Suc 0" "Suc (Suc 0) OR Suc 0 = Suc (Suc (Suc 0))"
  using bits_numerals
  unfolding numeral_3_eq_3 numeral_2_eq_2 One_nat_def
  by (simp_all only:)

lemma replicate_4: "replicate 4 x = [x, x, x, x]"
  by (simp add: numeral_eq_Suc)

lemma bell_valid:
  "assertValidQubitCount (circuitQubits bellCircuit) = None"
  "\<forall>step \<in> set (steps bellCircuit). validateStep (circuitQubits bellCircuit) step = None"
  by (simp_all add: bellCircuit_def assertValidQubitCount_def MAX_SIM_QUBITS_def validateStep_def
      assertQubitIndex_def numeral_2_eq_2)

lemma bell_zero: "zeroState 2 = Inr \<lparr>nQubits = 2, re = [1, 0, 0, 0 :: real], im = [0, 0, 0, 0]\<rparr>"
  by (simp add: zeroState_def assertValidQubitCount_def MAX_SIM_QUBITS_def Let_def replicate_4)

lemma bell_h:
  "applyH \<lparr>nQubits = 2, re = [1, 0, 0, 0], im = [0, 0, 0, 0]\<rparr> 0
     = (None, \<lparr>nQubits = 2, re = [1 / sqrt 2, 0, 1 / sqrt 2, 0], im = [0, 0, 0, 0]\<rparr>)"
  by (simp add: applyH_def applySingleQubitMatrix_def assertQubitIndex_def maskForQubit_def
      singleQubitStep_def cx_def Let_def bits_two_qubits)

lemma bell_cnot:
  "applyCNOT \<lparr>nQubits = 2, re = [1 / sqrt 2, 0, 1 / sqrt 2, 0], im = [0, 0, 0, 0 :: real]\<rparr> 0 1
     = (None, bellState)"
  by (simp add: applyCNOT_def assertQubitIndex_def maskForQubit_def bellState_def
      cnotStep_def Let_def bits_two_qubits)

lemma bell_state: "simulateCircuit bellCircuit = Inr bellState"
  using bell_valid
  by (simp add: bellCircuit_def simulateCircuit_def bell_zero bell_h bell_cnot)

lemma bell_norm: "norm2 bellState = 1"
  by (simp add: norm2_def bellState_def lessThan_nat_numeral lessThan_Suc power_divide)

lemma bell_norm_example:
  "assertValidQubitCount (circuitQubits bellCircuit) = None
   \<and> steps bellCircuit = [[OpH 0], [OpCNOT 0 1]]
   \<and> validateStep (circuitQubits bellCircuit) [OpH 0 :: real GateOp] = None
   \<and> validateStep (circuitQubits bellCircuit) [OpCNOT 0 1 :: real GateOp] = None
   \<and> simulateCircuit bellCircuit = Inr bellState
   \<and> norm2 bellState = 1"
  using simulateCircuit_norm_exact [OF bell_valid] bell_valid bell_state
  by (auto simp: bellCircuit_def)

section \<open>Bloch vectors of two states\<close>

lemma upt_0_2: "[0..<2] = [0, Suc 0]"
  by (simp add: upt_rec numeral_2_eq_2)

lemma maskForQubit_1_0: "maskForQubit 1 0 = 1"
  by (simp add: maskForQubit_def)

lemma zeroState_1: "zeroState 1 = Inr ket0"
  by (simp add: zeroState_def assertValidQubitCount_def MAX_SIM_QUBITS_def ket0_def Let_def numeral_2_eq_2)

lemma applyH_ket0: "applyH ket0 0 = (None, ketPlus)"
  by (simp add: applyH_def applySingleQubitMatrix_def assertQubitIndex_def ket0_def ketPlus_def
      maskForQubit_1_0 upt_0_2 singleQubitStep_def cx_def Let_def)

lemma applyS_ketPlus: "applyS ketPlus 0 = (None, ketPlusI)"
  by (simp add: applyS_def applySingleQubitMatrix_def assertQubitIndex_def ketPlusI_def ketPlus_def
      maskForQubit_1_0 upt_0_2 singleQubitStep_def cx_def Let_def)

lemma inv_sqrt2_square: "1 / sqrt 2 * (1 / sqrt 2) = (1/2 :: real)"
  by (simp add: real_sqrt_mult_self field_simps)

lemma bloch_ketPlus: "blochVector ketPlus 0 = Inr \<lparr>bloch_x = 1, bloch_y = 0, bloch_z = 0\<rparr>"
  by (simp add: blochVector_def assertQubitIndex_def ketPlus_def maskForQubit_1_0 upt_0_2 blochStep_def Let_def)

lemma bloch_ketPlusI: "blochVector ketPlusI 0 = Inr \<lparr>bloch_x = 0, bloch_y = 1, bloch_z = 0\<rparr>"
  by (simp add: blochVector_def assertQubitIndex_def ketPlusI_def maskForQubit_1_0 upt_0_2 blochStep_def Let_def)

text \<open>
  C7. With \<open>(x, y, z) = (2 Re(rho01), -2 Im(rho01), rho00 - rho11)\<close>, where
  \<open>rho01\<close> accumulates \<open>S[i] * conj(S[j])\<close> over the pairs with the target bit clear:
  the state obtained by applying H to \<open>zeroState 1\<close> has Bloch vector \<open>(1, 0, 0)\<close>,
  and the state obtained by applying H and then S has Bloch vector \<open>(0, 1, 0)\<close>. In
  exact arithmetic the values are met exactly, hence within \<open>1e-9\<close>.
\<close>

theorem bloch_vector_H_and_SH:
  "zeroState 1 = Inr ket0
   \<and> applyH ket0 0 = (None, ketPlus)
   \<and> blochVector ketPlus 0 = Inr \<lparr>bloch_x = 1, bloch_y = 0, bloch_z = 0\<rparr>
   \<and> applyS ketPlus 0 = (None, ketPlusI)
   \<and> blochVector ketPlusI 0 = Inr \<lparr>bloch_x = 0, bloch_y = 1, bloch_z = 0\<rparr>
   \<and> \<bar>1 - (1::real)\<bar> \<le> 1 / 10 ^ 9 \<and> \<bar>0 - (0::real)\<bar> \<le> 1 / 10 ^ 9"
  using zeroState_1 applyH_ket0 bloch_ketPlus applyS_ketPlus bloch_ketPlusI by simp

section \<open>The norm on JavaScript numbers\<close>






subsection \<open>The kernels commute with a homomorphism of numbers\<close>





















subsection \<open>Circuits of X, Y, Z, S, CNOT, CZ, SWAP and MEASURE\<close>


















subsection \<open>The shape of the result of any circuit\<close>




















section \<open>Properties of the basis-index formatting\<close>

lemma toString2_chars: "set (toString2 k) \<subseteq> {CHR ''0'', CHR ''1''}"
proof (induction k rule: toString2.induct)
  case (1 k)
  show ?case
  proof (cases "k < 2")
    case True
    then show ?thesis by (subst toString2.simps) (simp add: digit2_def)
  next
    case False
    with 1 show ?thesis by (subst toString2.simps) (auto simp: digit2_def)
  qed
qed

lemma toString2_length_le: "k < 2 ^ n \<Longrightarrow> 0 < n \<Longrightarrow> length (toString2 k) \<le> n"
proof (induction k arbitrary: n rule: toString2.induct)
  case (1 k)
  show ?case
  proof (cases "k < 2")
    case True
    with 1(3) show ?thesis by (subst toString2.simps) simp
  next
    case False
    with 1(2) have n2: "2 \<le> n"
      by (cases n; cases "n - 1") auto
    then obtain m where m: "n = Suc m" "0 < m"
      by (cases n) auto
    from 1(2) m have "k div 2 < 2 ^ m"
      by (simp add: less_mult_imp_div_less mult.commute)
    with 1(1) [OF False _ m(2)] have "length (toString2 (k div 2)) \<le> m" .
    with False m show ?thesis by (subst toString2.simps) simp
  qed
qed

lemma parse_binary_snoc:
  "parse_binary (s @ [ch]) = 2 * parse_binary s + (if ch = CHR ''1'' then 1 else 0)"
  by (simp add: parse_binary_def)

lemma parse_binary_toString2: "parse_binary (toString2 k) = k"
proof (induction k rule: toString2.induct)
  case (1 k)
  show ?case
  proof (cases "k < 2")
    case True
    then have "k = 0 \<or> k = 1" by auto
    then show ?thesis
      by (subst toString2.simps) (auto simp: parse_binary_def digit2_def)
  next
    case False
    with 1 have ih: "parse_binary (toString2 (k div 2)) = k div 2" by simp
    have "parse_binary (toString2 k) = 2 * (k div 2) + (if digit2 (k mod 2) = CHR ''1'' then 1 else 0)"
      using False ih by (subst toString2.simps) (simp add: parse_binary_snoc)
    also have "\<dots> = 2 * (k div 2) + k mod 2"
    proof -
      have "(if digit2 (k mod 2) = CHR ''1'' then 1 else 0) = k mod 2"
        by (cases "k mod 2 = 0") (simp_all add: digit2_def)
      then show ?thesis by simp
    qed
    finally show ?thesis by simp
  qed
qed

lemma parse_binary_zeros: "parse_binary (replicate m (CHR ''0'') @ s) = parse_binary s"
proof -
  have "foldl (\<lambda>acc ch. 2 * acc + (if ch = CHR ''1'' then 1 else 0)) (0::nat) (replicate m (CHR ''0'')) = 0"
    by (induction m) simp_all
  then show ?thesis by (simp add: parse_binary_def)
qed

text \<open>
  C9. For every \<open>n \<ge> 1\<close> and every \<open>k\<close> in \<open>[0, 2^n)\<close>, \<open>bitstring k n\<close> is exactly
  \<open>n\<close> characters long, consists only of the characters 0 and 1, and reading it
  back as a binary numeral (most significant bit, that is q0, leftmost) gives \<open>k\<close>.
\<close>

theorem bitstring_roundtrip:
  assumes "1 \<le> n" and "k < 2 ^ n"
  shows "length (bitstring k n) = n
       \<and> set (bitstring k n) \<subseteq> {CHR ''0'', CHR ''1''}
       \<and> parse_binary (bitstring k n) = k"
proof -
  from assms have len: "length (toString2 k) \<le> n"
    by (simp add: toString2_length_le)
  then have "length (bitstring k n) = n"
    by (simp add: bitstring_def padStart_def)
  moreover have "set (bitstring k n) \<subseteq> {CHR ''0'', CHR ''1''}"
    using toString2_chars [of k] by (auto simp: bitstring_def padStart_def)
  moreover have "parse_binary (bitstring k n) = k"
    by (simp add: bitstring_def padStart_def parse_binary_zeros parse_binary_toString2)
  ultimately show ?thesis by simp
qed

theorem bitstring_roundtrip_witness:
  "(1::nat) \<le> 3 \<and> (5::nat) < 2 ^ 3
   \<and> bitstring 5 3 = ''101''
   \<and> length (bitstring 5 3) = 3
   \<and> set (bitstring 5 3) \<subseteq> {CHR ''0'', CHR ''1''}
   \<and> parse_binary (bitstring 5 3) = 5"
proof -
  have val: "bitstring 5 3 = ''101''"
    by code_simp
  have h1: "(1::nat) \<le> 3" and h2: "(5::nat) < 2 ^ 3" by simp_all
  from bitstring_roundtrip [OF h1 h2] val h1 h2 show ?thesis by simp
qed

end
